theory Spec2Isabelle
  imports Complex_Main
begin

section \<open>JavaScript strings\<close>

text \<open>
  A JavaScript string is modelled as a \<^typ>\<open>string\<close>: a list of characters, here
  of 8-bit characters, so the model covers URLs, patterns and versions written in
  Latin-1. The regular expressions of \<^verbatim>\<open>WebViewShared.tsx\<close> carry no flag, so
  they work on single characters, as the functions below do.
\<close>

fun startsWith :: "string \<Rightarrow> string \<Rightarrow> bool" where
  "startsWith [] s = True"
| "startsWith (p # ps) [] = False"
| "startsWith (p # ps) (c # cs) = (p = c \<and> startsWith ps cs)"

text \<open>\<^verbatim>\<open>s.includes(sep)\<close>: does \<open>sep\<close> occur in \<open>s\<close>?\<close>

fun includesStr :: "string \<Rightarrow> string \<Rightarrow> bool" where
  "includesStr sep [] = (sep = [])"
| "includesStr sep (c # cs) = (startsWith sep (c # cs) \<or> includesStr sep cs)"

text \<open>
  \<^verbatim>\<open>s.split(sep)\<close> for a string separator: the pieces between the occurrences
  of \<open>sep\<close>, found from the left without overlap. \<open>splitFrom sep cur s\<close> holds the
  characters of the piece under construction in \<open>cur\<close>, last character first. The
  source only splits on \<^verbatim>\<open>', '\<close>, \<^verbatim>\<open>' <'\<close> and \<^verbatim>\<open>'.'\<close>; an empty
  separator never matches here.
\<close>

function splitFrom :: "string \<Rightarrow> string \<Rightarrow> string \<Rightarrow> string list" where
  "splitFrom sep cur [] = [rev cur]"
| "splitFrom sep cur (c # cs) =
     (if sep \<noteq> [] \<and> startsWith sep (c # cs)
      then rev cur # splitFrom sep [] (drop (length sep) (c # cs))
      else splitFrom sep (c # cur) cs)"
  by pat_completeness auto
termination
  by (relation "measure (\<lambda>(sep, cur, s). length s)") (auto simp: neq_Nil_conv)

definition split :: "string \<Rightarrow> string \<Rightarrow> string list" where
  "split sep s = splitFrom sep [] s"

section \<open>Origin whitelist (WebViewShared.tsx, lines 21-44)\<close>

definition defaultOriginWhitelist :: "string list" where
  "defaultOriginWhitelist = [''https://*'']"

definition isAlpha :: "char \<Rightarrow> bool" where
  "isAlpha c = (let n = (of_char c :: nat) in (65 \<le> n \<and> n \<le> 90) \<or> (97 \<le> n \<and> n \<le> 122))"

definition isDigit :: "char \<Rightarrow> bool" where
  "isDigit c = (let n = (of_char c :: nat) in 48 \<le> n \<and> n \<le> 57)"

text \<open>The class \<^verbatim>\<open>[A-Za-z0-9+\-.]\<close> of the scheme's later characters.\<close>

definition isSchemeChar :: "char \<Rightarrow> bool" where
  "isSchemeChar c = (isAlpha c \<or> isDigit c \<or> c = CHR ''+'' \<or> c = CHR ''-'' \<or> c = CHR ''.'')"

text \<open>
  \<^verbatim>\<open>/^[A-Za-z][A-Za-z0-9+\-.]+:(\/\/)?[^/]*/.exec(url)\<close>, and the empty string when
  there is no match. The scheme class does not hold \<^verbatim>\<open>:\<close>, so the greedy
  \<^verbatim>\<open>+\<close> stops at the first character outside the class and that character has to
  be the colon; the optional \<^verbatim>\<open>//\<close> and the greedy \<^verbatim>\<open>[^/]*\<close> cannot fail.
\<close>

definition extractOrigin :: "string \<Rightarrow> string" where
  "extractOrigin u =
     (case u of
        [] \<Rightarrow> []
      | c # r \<Rightarrow>
          if \<not> isAlpha c then []
          else
            (let scheme = takeWhile isSchemeChar r; after = dropWhile isSchemeChar r in
             if scheme = [] then []
             else
               (case after of
                  [] \<Rightarrow> []
                | d # t \<Rightarrow>
                    if d \<noteq> CHR '':'' then []
                    else if startsWith ''//'' t
                    then c # scheme @ '':'' @ ''//'' @ takeWhile (\<lambda>x. x \<noteq> CHR ''/'') (drop 2 t)
                    else c # scheme @ '':'' @ takeWhile (\<lambda>x. x \<noteq> CHR ''/'') t)))"

text \<open>
  Modelled from the spec: \<^verbatim>\<open>escapeStringRegexp\<close> is the npm package
  \<^verbatim>\<open>escape-string-regexp\<close>, imported by the source and not part of it. The spec
  says that every pattern character other than \<^verbatim>\<open>*\<close> is "treated literally
  (regex-escaped)"; the package does it by writing a backslash before each of
  \<^verbatim>\<open>| \ { } ( ) [ ] ^ $ + * ? . -\<close>.
\<close>

definition backslash :: char where
  "backslash = CHR 0x5C"

definition matchOperators :: "char \<Rightarrow> bool" where
  "matchOperators c = (c \<in> set ''|{}()[]^$+*?.-'' \<or> c = backslash)"

fun escapeStringRegexp :: "string \<Rightarrow> string" where
  "escapeStringRegexp [] = []"
| "escapeStringRegexp (c # cs) =
     (if matchOperators c then backslash # c # escapeStringRegexp cs
      else c # escapeStringRegexp cs)"

text \<open>\<^verbatim>\<open>.replace(/\\\*/g, '.*')\<close>: every backslash-star becomes dot-star.\<close>

fun replaceEscapedStar :: "string \<Rightarrow> string" where
  "replaceEscapedStar (c # d # r) =
     (if c = backslash \<and> d = CHR ''*'' then ''.*'' @ replaceEscapedStar r
      else c # replaceEscapedStar (d # r))"
| "replaceEscapedStar s = s"

definition originWhitelistToRegex :: "string \<Rightarrow> string" where
  "originWhitelistToRegex originWhitelist =
     ''^'' @ replaceEscapedStar (escapeStringRegexp originWhitelist) @ ''$''"

definition compileWhitelist :: "string list \<Rightarrow> string list" where
  "compileWhitelist originWhitelist = map originWhitelistToRegex (''about:blank'' # originWhitelist)"

subsection \<open>The regular expressions that \<open>compileWhitelist\<close> writes\<close>

text \<open>
  \<^verbatim>\<open>new RegExp(x).test(origin)\<close> is the platform's. It is modelled for the sources
  of the shape \<^verbatim>\<open>^ item* $\<close>, where an item is a backslash and a syntax character
  (that character, literally), \<^verbatim>\<open>.*\<close>, or a character that is not a syntax
  character (itself). In ECMAScript the dot matches every character but a line
  terminator. A source of another shape has no value in this model (\<open>None\<close>).
\<close>

datatype rxItem = Lit char | DotStar

definition lineTerminator :: "char \<Rightarrow> bool" where
  "lineTerminator c = (c = CHR 0x0A \<or> c = CHR 0x0D)"

fun rxItems :: "string \<Rightarrow> rxItem list option" where
  "rxItems [] = None"
| "rxItems [c] = (if c = CHR ''$'' then Some [] else None)"
| "rxItems (c # d # r) =
     (if c = backslash
      then (if matchOperators d then map_option ((#) (Lit d)) (rxItems r) else None)
      else if c = CHR ''.'' \<and> d = CHR ''*'' then map_option ((#) DotStar) (rxItems r)
      else if matchOperators c then None
      else map_option ((#) (Lit c)) (rxItems (d # r)))"

fun rxMatch :: "rxItem list \<Rightarrow> string \<Rightarrow> bool" where
  "rxMatch [] s = (s = [])"
| "rxMatch (Lit c # items) [] = False"
| "rxMatch (Lit c # items) (d # s) = (c = d \<and> rxMatch items s)"
| "rxMatch (DotStar # items) [] = rxMatch items []"
| "rxMatch (DotStar # items) (d # s) =
     (rxMatch items (d # s) \<or> (\<not> lineTerminator d \<and> rxMatch (DotStar # items) s))"

definition regExpTest :: "string \<Rightarrow> string \<Rightarrow> bool option" where
  "regExpTest x s =
     (case x of
        [] \<Rightarrow> None
      | c # body \<Rightarrow>
          if c = CHR ''^'' then map_option (\<lambda>items. rxMatch items s) (rxItems body) else None)"

subsection \<open>The whitelist check\<close>

text \<open>
  What a call can raise. \<open>TypeError\<close> is what \<^verbatim>\<open>new URL(url)\<close> throws on a string
  it cannot parse, \<open>SyntaxError\<close> what \<^verbatim>\<open>JSON.parse\<close> throws, \<open>Rejected\<close> what a
  validator of the host throws, \<open>InvariantViolation\<close> what a failed \<^verbatim>\<open>invariant(...)\<close>
  throws; \<open>UnsupportedRegExp\<close> marks a regular expression outside the modelled shape.
\<close>

datatype jsError = TypeError | SyntaxError | UnsupportedRegExp | Rejected string | InvariantViolation

text \<open>\<^verbatim>\<open>compiledWhitelist.some(x => new RegExp(x).test(origin))\<close>, left to right.\<close>

fun someTest :: "string list \<Rightarrow> string \<Rightarrow> jsError + bool" where
  "someTest [] origin = Inr False"
| "someTest (x # xs) origin =
     (case regExpTest x origin of
        None \<Rightarrow> Inl UnsupportedRegExp
      | Some True \<Rightarrow> Inr True
      | Some False \<Rightarrow> someTest xs origin)"

text \<open>
  \<^verbatim>\<open>_passesWhitelist\<close> (lines 31-39), here \<open>u_passesWhitelist\<close> since a name
  cannot start with an underscore. \<^verbatim>\<open>new URL(url).origin\<close> is the platform's URL
  parser, taken as the parameter \<open>urlOrigin\<close>: \<open>None\<close> when the constructor throws,
  the serialised origin otherwise. The result is \<open>Inl\<close> an exception, or \<open>Inr\<close> of
  \<open>Some True\<close>, \<open>Some False\<close> or \<open>None\<close> for JavaScript's \<^verbatim>\<open>true\<close>, \<^verbatim>\<open>false\<close>
  and \<^verbatim>\<open>null\<close>.
\<close>

definition u_passesWhitelist ::
  "(string \<Rightarrow> string option) \<Rightarrow> string list \<Rightarrow> string \<Rightarrow> jsError + bool option" where
  "u_passesWhitelist urlOrigin compiledWhitelist u =
     (let origin = extractOrigin u in
      if origin = [] then Inr (Some False)
      else
        (case urlOrigin u of
           None \<Rightarrow> Inl TypeError
         | Some parsed \<Rightarrow>
             if origin \<noteq> parsed then Inr None
             else
               (case someTest compiledWhitelist origin of
                  Inl e \<Rightarrow> Inl e
                | Inr b \<Rightarrow> Inr (Some b))))"

text \<open>
  Following the spec's words (4.1): a glob pattern in which \<^verbatim>\<open>*\<close> matches any
  character sequence and every other pattern character is treated literally.
\<close>

fun globMatches :: "string \<Rightarrow> string \<Rightarrow> bool" where
  "globMatches [] s = (s = [])"
| "globMatches (p # ps) s =
     (if p = CHR ''*'' then list_ex (\<lambda>k. globMatches ps (drop k s)) [0..<Suc (length s)]
      else (case s of [] \<Rightarrow> False | c # cs \<Rightarrow> c = p \<and> globMatches ps cs))"

text \<open>
  The same, with \<^verbatim>\<open>*\<close> matching any sequence of characters that holds no line
  terminator: what the dot of a regular expression matches.
\<close>

fun globMatchesLine :: "string \<Rightarrow> string \<Rightarrow> bool" where
  "globMatchesLine [] s = (s = [])"
| "globMatchesLine (p # ps) s =
     (if p = CHR ''*''
      then list_ex (\<lambda>k. list_all (\<lambda>c. \<not> lineTerminator c) (take k s) \<and> globMatchesLine ps (drop k s))
             [0..<Suc (length s)]
      else (case s of [] \<Rightarrow> False | c # cs \<Rightarrow> c = p \<and> globMatchesLine ps cs))"

section \<open>Events, callbacks and commands\<close>

text \<open>
  The types of \<^verbatim>\<open>WebViewTypes\<close> that the handlers read. An event of the native
  layer wraps its record as \<^verbatim>\<open>nativeEvent\<close>; \<open>isDefaultPrevented\<close> is what
  \<^verbatim>\<open>event.isDefaultPrevented()\<close> returns when the handler asks, that is after the
  host's callbacks have been handed the event.
\<close>

record webViewNativeEvent =
  url :: string
  loading :: bool
  title :: string
  canGoBack :: bool
  canGoForward :: bool
  lockIdentifier :: int

record webViewError = webViewNativeEvent +
  domain :: "string option"
  code :: int
  description :: string

record webViewNativeProgressEvent = webViewNativeEvent +
  progress :: real

record webViewMessage = webViewNativeEvent +
  data :: string

record 'a nativeSyntheticEvent =
  nativeEvent :: 'a
  isDefaultPrevented :: bool

text \<open>
  What a handler does besides changing the component's state: the calls of the host's
  callbacks, in order, and the commands to the native layer. The callbacks that
  return nothing are opaque to the handlers, so a call is recorded and has no other
  consequence in the model.
\<close>

datatype effect =
    OnLoadStart "webViewNativeEvent nativeSyntheticEvent"
  | OnLoad "webViewNativeEvent nativeSyntheticEvent"
  | OnLoadEnd "webViewNativeEvent nativeSyntheticEvent"
  | OnLoadEndError "webViewError nativeSyntheticEvent"
  | OnError "webViewError nativeSyntheticEvent"
  | OnHttpError "webViewNativeEvent nativeSyntheticEvent"
  | OnRenderProcessGone "webViewNativeEvent nativeSyntheticEvent"
  | OnContentProcessDidTerminate "webViewNativeEvent nativeSyntheticEvent"
  | OnLoadProgress "webViewNativeProgressEvent nativeSyntheticEvent"
  | OnNavigationStateChange webViewNativeEvent
  | OnMessage webViewMessage
  | ConsoleWarn
  | LinkingCanOpenURL string
  | LinkingOpenURL string
  | LoadRequest bool string int
  | CommandsReload

section \<open>The load-request interceptor (WebViewShared.tsx, lines 46-76)\<close>

text \<open>
  The handler that \<^verbatim>\<open>createOnShouldStartLoadWithRequest\<close> returns, applied to an
  event. \<^verbatim>\<open>loadRequest\<close> is recorded as the effect \<open>LoadRequest\<close>. The first
  component of the result is the exception that leaves the handler, if any.
  \<^verbatim>\<open>Linking.canOpenURL(url)\<close> only starts a promise; what runs when it settles
  (\<open>canOpenURLSettled\<close> below) is not part of the handler's turn.
\<close>

definition createOnShouldStartLoadWithRequest ::
  "(string \<Rightarrow> string option) \<Rightarrow> string list \<Rightarrow> (webViewNativeEvent \<Rightarrow> bool) option
     \<Rightarrow> webViewNativeEvent \<Rightarrow> jsError option \<times> effect list" where
  "createOnShouldStartLoadWithRequest urlOrigin originWhitelist onShouldStartLoadWithRequest ev =
     (case u_passesWhitelist urlOrigin (compileWhitelist originWhitelist) (url ev) of
        Inl e \<Rightarrow> (Some e, [])
      | Inr r \<Rightarrow>
          if r \<noteq> Some True
          then (None, [LinkingCanOpenURL (url ev), LoadRequest False (url ev) (lockIdentifier ev)])
          else
            (case onShouldStartLoadWithRequest of
               Some f \<Rightarrow> (None, [LoadRequest (f ev) (url ev) (lockIdentifier ev)])
             | None \<Rightarrow> (None, [LoadRequest True (url ev) (lockIdentifier ev)])))"

text \<open>
  The continuation of \<^verbatim>\<open>Linking.canOpenURL(url)\<close> (lines 60-68): the promise
  resolves to \<^verbatim>\<open>supported\<close>, or is rejected (\<open>None\<close>); a rejection is caught and
  logged.
\<close>

definition canOpenURLSettled :: "string \<Rightarrow> bool option \<Rightarrow> effect list" where
  "canOpenURLSettled u settled =
     (case settled of
        None \<Rightarrow> [ConsoleWarn]
      | Some supported \<Rightarrow>
          if supported \<and> startsWith ''https://'' u then [LinkingOpenURL u] else [ConsoleWarn])"

text \<open>
  A few values of \<^verbatim>\<open>new URL(u).origin\<close> under the URL standard, for the examples:
  a special scheme with an empty host does not parse, a default port and the path
  are not part of the origin, and a scheme that is not special has the opaque origin
  \<^verbatim>\<open>null\<close>. The strings that are not listed stand for URLs that do not parse.
\<close>

definition exampleOrigin :: "string \<Rightarrow> string option" where
  "exampleOrigin u =
     (if u = ''https://example.com/index.html'' then Some ''https://example.com''
      else if u = ''https://example.com:443/'' then Some ''https://example.com''
      else if u = ''https://example.org/'' then Some ''https://example.org''
      else if u = ''http://evil.test/'' then Some ''http://evil.test''
      else if u = ''about:blank'' then Some ''null''
      else None)"

section \<open>The hook \<open>useWebWiewLogic\<close>\<close>

text \<open>
  The source holds the hook twice: lines 104-258 of \<^verbatim>\<open>WebViewShared.tsx\<close>, and a
  second text of the file (lines 358-482) that guards \<^verbatim>\<open>passesWhitelist\<close> against an
  empty URL, checks the whitelist in \<^verbatim>\<open>onLoadingProgress\<close> and no longer reports
  the navigation state or the progress to the host. The handlers of the first text
  keep their names; those of the second text that differ end in \<open>2\<close>.

  The state of a component: the two \<^verbatim>\<open>useState\<close> cells and the \<^verbatim>\<open>useRef\<close> cell. A
  handler's calls of the setters are applied together, when the handler returns.
\<close>

datatype viewStateName = IDLE | LOADING | ERROR

record hookState =
  viewState :: viewStateName
  lastErrorEvent :: "webViewError option"
  startUrl :: "string option"

text \<open>
  What the platform supplies: \<^verbatim>\<open>new URL(u).origin\<close>, \<^verbatim>\<open>JSON.parse\<close> (\<open>None\<close> when
  it throws), \<^verbatim>\<open>JSON.stringify\<close> and \<^verbatim>\<open>Platform.OS\<close>. \<open>'j\<close> is the type of the
  values that \<^verbatim>\<open>JSON.parse\<close> returns.
\<close>

record 'j platform =
  urlOrigin :: "string \<Rightarrow> string option"
  jsonParse :: "string \<Rightarrow> 'j option"
  jsonStringify :: "'j \<Rightarrow> string"
  platformOS :: string

text \<open>
  The hook's arguments. An optional callback that returns nothing is the flag "was it
  supplied"; the callbacks whose result the handlers use are functions, and a
  validator returns \<open>Inl\<close> what it throws.
\<close>

record 'j hookProps =
  startInLoadingState :: bool
  onNavigationStateChange :: bool
  onLoadStart :: bool
  onLoad :: bool
  onLoadProgress :: bool
  onLoadEnd :: bool
  onError :: bool
  onHttpErrorProp :: bool
  onMessageProp :: bool
  onRenderProcessGoneProp :: bool
  onContentProcessDidTerminateProp :: bool
  originWhitelist :: "string list"
  onShouldStartLoadWithRequestProp :: "(webViewNativeEvent \<Rightarrow> bool) option"
  validateMeta :: "webViewNativeEvent \<Rightarrow> jsError + webViewNativeEvent"
  validateData :: "'j \<Rightarrow> jsError + 'j"

definition initialState :: "'j hookProps \<Rightarrow> hookState" where
  "initialState props =
     \<lparr>viewState = (if startInLoadingState props then LOADING else IDLE),
      lastErrorEvent = None, startUrl = None\<rparr>"

text \<open>\<^verbatim>\<open>callback?.(event)\<close>: the call, when the callback was supplied.\<close>

definition callIf :: "bool \<Rightarrow> effect \<Rightarrow> effect list" where
  "callIf supplied e = (if supplied then [e] else [])"

definition passesWhitelist :: "'j platform \<Rightarrow> 'j hookProps \<Rightarrow> string \<Rightarrow> jsError + bool option" where
  "passesWhitelist pf props u =
     u_passesWhitelist (urlOrigin pf) (compileWhitelist (originWhitelist props)) u"

definition passesWhitelist2 :: "'j platform \<Rightarrow> 'j hookProps \<Rightarrow> string \<Rightarrow> jsError + bool option" where
  "passesWhitelist2 pf props u =
     (if u = [] then Inr (Some False)
      else u_passesWhitelist (urlOrigin pf) (compileWhitelist (originWhitelist props)) u)"

definition updateNavigationState ::
  "'j hookProps \<Rightarrow> webViewNativeEvent nativeSyntheticEvent \<Rightarrow> effect list" where
  "updateNavigationState props ev =
     callIf (onNavigationStateChange props) (OnNavigationStateChange (nativeEvent ev))"

text \<open>
  A handler returns the exception that leaves it (if any), the state after it, and
  its effects in order.
\<close>

type_synonym handled = "jsError option \<times> hookState \<times> effect list"

definition onLoadingStart ::
  "'j hookProps \<Rightarrow> hookState \<Rightarrow> webViewNativeEvent nativeSyntheticEvent \<Rightarrow> handled" where
  "onLoadingStart props st ev =
     (None, st\<lparr>startUrl := Some (url (nativeEvent ev))\<rparr>,
      callIf (onLoadStart props) (OnLoadStart ev) @ updateNavigationState props ev)"

definition onLoadingStart2 ::
  "'j hookProps \<Rightarrow> hookState \<Rightarrow> webViewNativeEvent nativeSyntheticEvent \<Rightarrow> handled" where
  "onLoadingStart2 props st ev =
     (None, st\<lparr>startUrl := Some (url (nativeEvent ev))\<rparr>,
      callIf (onLoadStart props) (OnLoadStart ev))"

text \<open>\<^verbatim>\<open>onLoadingError\<close> is the same in both texts (lines 163-174 and 412-423).\<close>

definition onLoadingError ::
  "'j hookProps \<Rightarrow> hookState \<Rightarrow> webViewError nativeSyntheticEvent \<Rightarrow> handled" where
  "onLoadingError props st ev =
     (let effects = (if onError props then [OnError ev] else [ConsoleWarn])
                      @ callIf (onLoadEnd props) (OnLoadEndError ev) in
      if isDefaultPrevented ev then (None, st, effects)
      else (None, st\<lparr>viewState := ERROR, lastErrorEvent := Some (nativeEvent ev)\<rparr>, effects))"

definition onHttpError ::
  "'j hookProps \<Rightarrow> hookState \<Rightarrow> webViewNativeEvent nativeSyntheticEvent \<Rightarrow> handled" where
  "onHttpError props st ev = (None, st, callIf (onHttpErrorProp props) (OnHttpError ev))"

definition onRenderProcessGone ::
  "'j hookProps \<Rightarrow> hookState \<Rightarrow> webViewNativeEvent nativeSyntheticEvent \<Rightarrow> handled" where
  "onRenderProcessGone props st ev =
     (None, st, callIf (onRenderProcessGoneProp props) (OnRenderProcessGone ev))"

definition onContentProcessDidTerminate ::
  "'j hookProps \<Rightarrow> hookState \<Rightarrow> webViewNativeEvent nativeSyntheticEvent \<Rightarrow> handled" where
  "onContentProcessDidTerminate props st ev =
     (None, st, callIf (onContentProcessDidTerminateProp props) (OnContentProcessDidTerminate ev))"

definition onLoadingFinish ::
  "'j platform \<Rightarrow> 'j hookProps \<Rightarrow> hookState \<Rightarrow> webViewNativeEvent nativeSyntheticEvent \<Rightarrow> handled" where
  "onLoadingFinish pf props st ev =
     (let effects = callIf (onLoad props) (OnLoad ev) @ callIf (onLoadEnd props) (OnLoadEnd ev);
          u = url (nativeEvent ev) in
      case passesWhitelist pf props u of
        Inl e \<Rightarrow> (Some e, st, effects)
      | Inr r \<Rightarrow>
          if r \<noteq> Some True then (None, st, effects)
          else
            (None,
             (if platformOS pf \<noteq> ''android'' \<or> Some u = startUrl st
              then st\<lparr>viewState := IDLE\<rparr> else st),
             effects @ updateNavigationState props ev))"

definition onLoadingFinish2 ::
  "'j platform \<Rightarrow> 'j hookProps \<Rightarrow> hookState \<Rightarrow> webViewNativeEvent nativeSyntheticEvent \<Rightarrow> handled" where
  "onLoadingFinish2 pf props st ev =
     (let effects = callIf (onLoad props) (OnLoad ev) @ callIf (onLoadEnd props) (OnLoadEnd ev);
          u = url (nativeEvent ev) in
      case passesWhitelist2 pf props u of
        Inl e \<Rightarrow> (Some e, st, effects)
      | Inr r \<Rightarrow>
          if r \<noteq> Some True then (None, st, effects)
          else
            (None,
             (if platformOS pf \<noteq> ''android'' \<or> Some u = startUrl st
              then st\<lparr>viewState := IDLE\<rparr> else st),
             effects))"

text \<open>
  \<^verbatim>\<open>String\<close>, \<^verbatim>\<open>Boolean\<close> and \<^verbatim>\<open>Number\<close> leave a value of their own type as it
  is, so \<^verbatim>\<open>extractMeta\<close> (written in place in the first text) copies the six fields.
\<close>

definition extractMeta :: "webViewMessage \<Rightarrow> webViewNativeEvent" where
  "extractMeta ne =
     \<lparr>url = url ne, loading = loading ne, title = title ne, canGoBack = canGoBack ne,
      canGoForward = canGoForward ne, lockIdentifier = lockIdentifier ne\<rparr>"

text \<open>\<^verbatim>\<open>{ ...meta, data }\<close>\<close>

definition withData :: "webViewNativeEvent \<Rightarrow> string \<Rightarrow> webViewMessage" where
  "withData meta d =
     \<lparr>url = url meta, loading = loading meta, title = title meta, canGoBack = canGoBack meta,
      canGoForward = canGoForward meta, lockIdentifier = lockIdentifier meta, data = d\<rparr>"

text \<open>
  What follows the whitelist check in \<^verbatim>\<open>onMessage\<close>, the same in both texts:
  \<^verbatim>\<open>JSON.parse\<close>, the data validator, \<^verbatim>\<open>JSON.stringify\<close>, the metadata validator,
  the host's callback. Nothing is caught.
\<close>

definition deliverMessage ::
  "'j platform \<Rightarrow> 'j hookProps \<Rightarrow> hookState \<Rightarrow> webViewMessage nativeSyntheticEvent \<Rightarrow> handled" where
  "deliverMessage pf props st ev =
     (case jsonParse pf (data (nativeEvent ev)) of
        None \<Rightarrow> (Some SyntaxError, st, [])
      | Some parsed \<Rightarrow>
          (case validateData props parsed of
             Inl e \<Rightarrow> (Some e, st, [])
           | Inr valid \<Rightarrow>
               (let d = jsonStringify pf valid in
                case validateMeta props (extractMeta (nativeEvent ev)) of
                  Inl e \<Rightarrow> (Some e, st, [])
                | Inr meta \<Rightarrow> (None, st, callIf (onMessageProp props) (OnMessage (withData meta d))))))"

definition onMessage ::
  "'j platform \<Rightarrow> 'j hookProps \<Rightarrow> hookState \<Rightarrow> webViewMessage nativeSyntheticEvent \<Rightarrow> handled" where
  "onMessage pf props st ev =
     (case passesWhitelist pf props (url (nativeEvent ev)) of
        Inl e \<Rightarrow> (Some e, st, [])
      | Inr r \<Rightarrow> if r \<noteq> Some True then (None, st, []) else deliverMessage pf props st ev)"

definition onMessage2 ::
  "'j platform \<Rightarrow> 'j hookProps \<Rightarrow> hookState \<Rightarrow> webViewMessage nativeSyntheticEvent \<Rightarrow> handled" where
  "onMessage2 pf props st ev =
     (case passesWhitelist2 pf props (url (nativeEvent ev)) of
        Inl e \<Rightarrow> (Some e, st, [])
      | Inr r \<Rightarrow> if r \<noteq> Some True then (None, st, []) else deliverMessage pf props st ev)"

text \<open>
  \<^verbatim>\<open>setViewState(prevViewState => prevViewState === 'LOADING' ? 'IDLE' : prevViewState)\<close>
\<close>

definition finishLoading :: "hookState \<Rightarrow> hookState" where
  "finishLoading st = st\<lparr>viewState := (if viewState st = LOADING then IDLE else viewState st)\<rparr>"

definition onLoadingProgress ::
  "'j platform \<Rightarrow> 'j hookProps \<Rightarrow> hookState \<Rightarrow> webViewNativeProgressEvent nativeSyntheticEvent \<Rightarrow> handled" where
  "onLoadingProgress pf props st ev =
     (None,
      (if platformOS pf = ''android'' \<and> progress (nativeEvent ev) = 1 then finishLoading st else st),
      callIf (onLoadProgress props) (OnLoadProgress ev))"

definition onLoadingProgress2 ::
  "'j platform \<Rightarrow> 'j hookProps \<Rightarrow> hookState \<Rightarrow> webViewNativeProgressEvent nativeSyntheticEvent \<Rightarrow> handled" where
  "onLoadingProgress2 pf props st ev =
     (case passesWhitelist2 pf props (url (nativeEvent ev)) of
        Inl e \<Rightarrow> (Some e, st, [])
      | Inr r \<Rightarrow>
          if r \<noteq> Some True then (None, st, [])
          else
            (None,
             (if platformOS pf = ''android'' \<and> progress (nativeEvent ev) = 1 then finishLoading st else st),
             []))"

definition onShouldStartLoadWithRequest ::
  "'j platform \<Rightarrow> 'j hookProps \<Rightarrow> hookState \<Rightarrow> webViewNativeEvent \<Rightarrow> handled" where
  "onShouldStartLoadWithRequest pf props st ne =
     (case createOnShouldStartLoadWithRequest (urlOrigin pf) (originWhitelist props)
             (onShouldStartLoadWithRequestProp props) ne of
        (raised, effects) \<Rightarrow> (raised, st, effects))"

text \<open>
  The imperative \<^verbatim>\<open>reload\<close> of the iOS component (\<^verbatim>\<open>src/unnamed/part_000\<close>, lines
  125-129):
  \<^verbatim>\<open>setViewState('LOADING'); Commands.reload(webViewRef.current)\<close>.
\<close>

definition reload :: "hookState \<Rightarrow> handled" where
  "reload st = (None, st\<lparr>viewState := LOADING\<rparr>, [CommandsReload])"

text \<open>
  What reaches a component: the events of the native layer and the host's
  \<^verbatim>\<open>reload\<close>. \<open>handle\<close> dispatches to the handlers of the first text, \<open>handle2\<close> to
  those of the second, which has no handler for the last three events. An
  exception leaves the state as the handler returned it.
\<close>

datatype input =
    LoadingStart "webViewNativeEvent nativeSyntheticEvent"
  | LoadingProgress "webViewNativeProgressEvent nativeSyntheticEvent"
  | LoadingFinish "webViewNativeEvent nativeSyntheticEvent"
  | LoadingError "webViewError nativeSyntheticEvent"
  | Message "webViewMessage nativeSyntheticEvent"
  | ShouldStartLoadWithRequest webViewNativeEvent
  | Reload
  | HttpError "webViewNativeEvent nativeSyntheticEvent"
  | RenderProcessGone "webViewNativeEvent nativeSyntheticEvent"
  | ContentProcessDidTerminate "webViewNativeEvent nativeSyntheticEvent"

fun handle :: "'j platform \<Rightarrow> 'j hookProps \<Rightarrow> hookState \<Rightarrow> input \<Rightarrow> handled" where
  "handle pf props st (LoadingStart ev) = onLoadingStart props st ev"
| "handle pf props st (LoadingProgress ev) = onLoadingProgress pf props st ev"
| "handle pf props st (LoadingFinish ev) = onLoadingFinish pf props st ev"
| "handle pf props st (LoadingError ev) = onLoadingError props st ev"
| "handle pf props st (Message ev) = onMessage pf props st ev"
| "handle pf props st (ShouldStartLoadWithRequest ne) = onShouldStartLoadWithRequest pf props st ne"
| "handle pf props st Reload = reload st"
| "handle pf props st (HttpError ev) = onHttpError props st ev"
| "handle pf props st (RenderProcessGone ev) = onRenderProcessGone props st ev"
| "handle pf props st (ContentProcessDidTerminate ev) = onContentProcessDidTerminate props st ev"

fun handle2 :: "'j platform \<Rightarrow> 'j hookProps \<Rightarrow> hookState \<Rightarrow> input \<Rightarrow> handled" where
  "handle2 pf props st (LoadingStart ev) = onLoadingStart2 props st ev"
| "handle2 pf props st (LoadingProgress ev) = onLoadingProgress2 pf props st ev"
| "handle2 pf props st (LoadingFinish ev) = onLoadingFinish2 pf props st ev"
| "handle2 pf props st (LoadingError ev) = onLoadingError props st ev"
| "handle2 pf props st (Message ev) = onMessage2 pf props st ev"
| "handle2 pf props st (ShouldStartLoadWithRequest ne) = onShouldStartLoadWithRequest pf props st ne"
| "handle2 pf props st Reload = reload st"
| "handle2 pf props st other = (None, st, [])"

text \<open>The state after a sequence of inputs, from the hook's initial state.\<close>

definition stateAfter :: "'j platform \<Rightarrow> 'j hookProps \<Rightarrow> input list \<Rightarrow> hookState" where
  "stateAfter pf props inputs = foldl (\<lambda>st i. fst (snd (handle pf props st i))) (initialState props) inputs"

definition stateAfter2 :: "'j platform \<Rightarrow> 'j hookProps \<Rightarrow> input list \<Rightarrow> hookState" where
  "stateAfter2 pf props inputs = foldl (\<lambda>st i. fst (snd (handle2 pf props st i))) (initialState props) inputs"

text \<open>
  The placeholder that the iOS component renders over the web view
  (\<^verbatim>\<open>src/unnamed/part_000\<close>, lines 156-168): \<^verbatim>\<open>invariant(lastErrorEvent != null, ...)\<close>
  throws in the state \<^verbatim>\<open>ERROR\<close> when there is no error record.
\<close>

datatype otherView = NoView | LoadingView | ErrorView "string option" int string

definition renderOtherView :: "hookState \<Rightarrow> jsError + otherView" where
  "renderOtherView st =
     (if viewState st = LOADING then Inr LoadingView
      else if viewState st = ERROR then
        (case lastErrorEvent st of
           None \<Rightarrow> Inl InvariantViolation
         | Some e \<Rightarrow> Inr (ErrorView (domain e) (code e) (description e)))
      else Inr NoView)"

section \<open>The version gate (second text of WebViewShared.tsx, lines 484-515)\<close>

text \<open>
  \<^verbatim>\<open>/^[0-9]+(\.[0-9]+)*$/.test(s)\<close>, read from the left: the flag says whether the
  current group of digits has a digit yet.
\<close>

fun versionRegexFrom :: "bool \<Rightarrow> string \<Rightarrow> bool" where
  "versionRegexFrom digitSeen [] = digitSeen"
| "versionRegexFrom digitSeen (c # cs) =
     (if isDigit c then versionRegexFrom True cs
      else if c = CHR ''.'' \<and> digitSeen then versionRegexFrom False cs
      else False)"

definition versionRegex :: "string \<Rightarrow> bool" where
  "versionRegex s = versionRegexFrom False s"

text \<open>
  The loop of lines 508-513, from index \<open>i\<close>. \<^verbatim>\<open>versionParts[i] || 0\<close> is the
  component, or zero past the end (and zero for a component that is zero).
\<close>

function compareParts :: "('n::{linorder,zero}) list \<Rightarrow> 'n list \<Rightarrow> nat \<Rightarrow> nat \<Rightarrow> bool" where
  "compareParts versionParts minimumParts len i =
     (if i < len then
        (let ver = (if i < length versionParts then versionParts ! i else 0);
             mn = (if i < length minimumParts then minimumParts ! i else 0) in
         if ver > mn then True
         else if ver < mn then False
         else compareParts versionParts minimumParts len (i + 1))
      else True)"
  by pat_completeness auto
termination
  by (relation "measure (\<lambda>(versionParts, minimumParts, len, i). len - i)") auto

text \<open>
  \<^verbatim>\<open>versionPasses\<close>. \<^verbatim>\<open>Number\<close> turns a string of digits into a double; it is the
  parameter \<open>num\<close>, into any linear order with a zero, so that nothing below depends
  on how large numbers are rounded. The two arguments are strings; the empty string
  stands for every value that \<^verbatim>\<open>!version || !minimum\<close> rejects. When \<^verbatim>\<open>minimum\<close>
  includes \<^verbatim>\<open>' <'\<close> the split has at least two pieces, so \<^verbatim>\<open>max\<close> is defined and the
  last case of the \<open>case\<close> is never taken.
\<close>

function versionPasses :: "(string \<Rightarrow> 'n::{linorder,zero}) \<Rightarrow> string \<Rightarrow> string \<Rightarrow> bool" where
  "versionPasses num version minimum =
     (if version = [] \<or> minimum = [] then False
      else if includesStr '', '' minimum then
        (let variants = split '', '' minimum in
         if \<not> list_all (includesStr '' <'') (butlast variants) then False
         else list_ex (\<lambda>x. versionPasses num version x) variants)
      else if includesStr '' <'' minimum then
        (case split '' <'' minimum of
           mn # mx # rest \<Rightarrow>
             if rest \<noteq> [] then False
             else versionPasses num version mn \<and> \<not> versionPasses num version mx
                    \<and> versionPasses num mx version
         | _ \<Rightarrow> False)
      else if \<not> versionRegex version \<or> \<not> versionRegex minimum then False
      else
        (let versionParts = map num (split ''.'' version);
             minimumParts = map num (split ''.'' minimum);
             len = max (length versionParts) (length minimumParts) in
         compareParts versionParts minimumParts len 0))"
  by pat_completeness auto
termination
proof -
  have upper: "length x \<le> length cur + length s"
    if "x \<in> set (splitFrom sep cur s)" for x sep cur s
    using that
  proof (induction sep cur s rule: splitFrom.induct)
    case (1 sep cur)
    then show ?case by simp
  next
    case (2 sep cur c cs)
    show ?case
    proof (cases "sep \<noteq> [] \<and> startsWith sep (c # cs)")
      case True
      then have "0 < length sep" by simp
      with True 2 show ?thesis by (auto simp: drop_Cons' split: if_splits)
    next
      case False
      with 2 show ?thesis by auto
    qed
  qed
  have shorter: "length x < length cur + length s"
    if "sep \<noteq> []" "includesStr sep s" "x \<in> set (splitFrom sep cur s)" for x sep cur s
    using that
  proof (induction sep cur s rule: splitFrom.induct)
    case (1 sep cur)
    then show ?case by simp
  next
    case (2 sep cur c cs)
    show ?case
    proof (cases "startsWith sep (c # cs)")
      case True
      with 2 have "x = rev cur \<or> x \<in> set (splitFrom sep [] (drop (length sep) (c # cs)))"
        by auto
      then show ?thesis
      proof
        assume "x = rev cur"
        then show ?thesis by simp
      next
        assume "x \<in> set (splitFrom sep [] (drop (length sep) (c # cs)))"
        from upper [OF this] have "length x \<le> length (drop (length sep) (c # cs))" by simp
        also have "\<dots> \<le> length cs" using \<open>sep \<noteq> []\<close> by (cases sep) auto
        finally show ?thesis by simp
      qed
    next
      case False
      with 2 show ?thesis by auto
    qed
  qed
  have piece: "length x < length s"
    if "sep \<noteq> []" "includesStr sep s" "x \<in> set (split sep s)" for x sep s
    using shorter [of sep s x "[]"] that by (simp add: split_def)
  have first: "length mn < length s" and second: "length mx < length s"
    if "sep \<noteq> []" "includesStr sep s" "split sep s = mn # mx # rest" for sep s mn mx rest
    using piece [of sep s mn] piece [of sep s mx] that by simp_all
  show ?thesis
  proof (relation "measure (\<lambda>(num, version, minimum). length version + length minimum)", goal_cases)
    case 1
    show ?case by simp
  next
    case (2 num version minimum variants x)
    then show ?case using piece [of "'', ''" minimum x] by simp
  next
    case (3 num version minimum mn others mx rest)
    then show ?case using first [of "'' <''" minimum mn mx rest] by simp
  next
    case (4 num version minimum mn others mx rest)
    then show ?case using second [of "'' <''" minimum mn mx rest] by simp
  next
    case (5 num version minimum mn others mx rest)
    then show ?case using second [of "'' <''" minimum mn mx rest] by simp
  qed
qed

declare compareParts.simps [simp del]
declare versionPasses.simps [simp del]

text \<open>
  Following the spec's words (4.2): "compare component-wise left to right, treating
  a missing trailing component as 0; the first differing pair decides; equal
  length-normalized sequences pass".
\<close>

fun atLeastVersion :: "('n::{linorder,zero}) list \<Rightarrow> 'n list \<Rightarrow> bool" where
  "atLeastVersion [] [] = True"
| "atLeastVersion (a # as) [] = (if a > 0 then True else if a < 0 then False else atLeastVersion as [])"
| "atLeastVersion [] (b # bs) = (if 0 > b then True else if 0 < b then False else atLeastVersion [] bs)"
| "atLeastVersion (a # as) (b # bs) = (if a > b then True else if a < b then False else atLeastVersion as bs)"

text \<open>
  Following the spec's words (3 and 4.2): a clause of a version spec is a single
  dotted version or a range \<^verbatim>\<open>min <max\<close>. Both the version and the bound must be
  dotted numbers, and the version satisfies the bound when it is at least the bound
  in the component-wise order. A version satisfies a range when it "satisfies min
  as a lower bound AND does not satisfy max as a lower bound AND max itself
  satisfies version as a lower bound". A clause with more than one \<^verbatim>\<open> <\<close> is
  malformed and satisfied by no version.
\<close>

definition satisfiesBound :: "(string \<Rightarrow> 'n::{linorder,zero}) \<Rightarrow> string \<Rightarrow> string \<Rightarrow> bool" where
  "satisfiesBound num v bound =
     (versionRegex v \<and> versionRegex bound
      \<and> atLeastVersion (map num (split ''.'' v)) (map num (split ''.'' bound)))"

definition satisfiesClause :: "(string \<Rightarrow> 'n::{linorder,zero}) \<Rightarrow> string \<Rightarrow> string \<Rightarrow> bool" where
  "satisfiesClause num v clause =
     (case split '' <'' clause of
        [bound] \<Rightarrow> satisfiesBound num v bound
      | [mn, mx] \<Rightarrow> satisfiesBound num v mn \<and> \<not> satisfiesBound num v mx \<and> satisfiesBound num mx v
      | _ \<Rightarrow> False)"

text \<open>The value of a string of decimal digits, which \<^verbatim>\<open>Number\<close> returns while it is below \<open>2^53\<close>.\<close>

definition decimalValue :: "string \<Rightarrow> nat" where
  "decimalValue s = foldl (\<lambda>n c. 10 * n + (of_char c - 48)) 0 s"

text \<open>The lower bound that the iOS component always applies (\<^verbatim>\<open>src/unnamed/part_000\<close>, line 67).\<close>

definition hardMinimumIOSVersion :: string where
  "hardMinimumIOSVersion = ''12.5.6 <13, 13.6.1 <14, 14.8.1 <15, 15.7.1''"

section \<open>Values for the examples\<close>

text \<open>
  A platform and a host for the examples. The JSON values are cut down to three
  literals, which \<open>exampleParse\<close> reads and \<open>exampleStringify\<close> writes; every other
  payload stands for a text that \<^verbatim>\<open>JSON.parse\<close> rejects. The host supplies every
  callback, the default whitelist and validators that accept every value.
\<close>

datatype exampleJson = JsonNull | JsonTrue | JsonFalse

definition exampleParse :: "string \<Rightarrow> exampleJson option" where
  "exampleParse s =
     (if s = ''null'' then Some JsonNull
      else if s = ''true'' then Some JsonTrue
      else if s = ''false'' then Some JsonFalse
      else None)"

fun exampleStringify :: "exampleJson \<Rightarrow> string" where
  "exampleStringify JsonNull = ''null''"
| "exampleStringify JsonTrue = ''true''"
| "exampleStringify JsonFalse = ''false''"

definition examplePlatform :: "string \<Rightarrow> exampleJson platform" where
  "examplePlatform opsys =
     \<lparr>urlOrigin = exampleOrigin, jsonParse = exampleParse, jsonStringify = exampleStringify,
      platformOS = opsys\<rparr>"

definition exampleProps :: "exampleJson hookProps" where
  "exampleProps =
     \<lparr>startInLoadingState = True, onNavigationStateChange = True, onLoadStart = True,
      onLoad = True, onLoadProgress = True, onLoadEnd = True, onError = True,
      onHttpErrorProp = True, onMessageProp = True, onRenderProcessGoneProp = True,
      onContentProcessDidTerminateProp = True, originWhitelist = defaultOriginWhitelist,
      onShouldStartLoadWithRequestProp = None, validateMeta = Inr, validateData = Inr\<rparr>"

definition exampleEvent :: "string \<Rightarrow> webViewNativeEvent" where
  "exampleEvent u =
     \<lparr>url = u, loading = False, title = ''Example'', canGoBack = False, canGoForward = False,
      lockIdentifier = 7\<rparr>"

definition exampleMessage :: "string \<Rightarrow> string \<Rightarrow> webViewMessage nativeSyntheticEvent" where
  "exampleMessage u d =
     \<lparr>nativeEvent =
        \<lparr>url = u, loading = False, title = ''Example'', canGoBack = False, canGoForward = False,
         lockIdentifier = 7, data = d\<rparr>,
      isDefaultPrevented = False\<rparr>"

definition exampleProgress :: "string \<Rightarrow> real \<Rightarrow> webViewNativeProgressEvent nativeSyntheticEvent" where
  "exampleProgress u p =
     \<lparr>nativeEvent =
        \<lparr>url = u, loading = True, title = ''Example'', canGoBack = False, canGoForward = False,
         lockIdentifier = 7, progress = p\<rparr>,
      isDefaultPrevented = False\<rparr>"

definition exampleError :: "bool \<Rightarrow> webViewError nativeSyntheticEvent" where
  "exampleError prevented =
     \<lparr>nativeEvent =
        \<lparr>url = ''https://example.com/index.html'', loading = False, title = ''Example'',
         canGoBack = False, canGoForward = False, lockIdentifier = 7,
         domain = Some ''NSURLErrorDomain'', code = -1009, description = ''offline''\<rparr>,
      isDefaultPrevented = prevented\<rparr>"

definition exampleNavigation :: "string \<Rightarrow> webViewNativeEvent nativeSyntheticEvent" where
  "exampleNavigation u = \<lparr>nativeEvent = exampleEvent u, isDefaultPrevented = False\<rparr>"

text \<open>The decisions among the effects of the interceptor.\<close>

fun isLoadRequest :: "effect \<Rightarrow> bool" where
  "isLoadRequest (LoadRequest shouldStart u lock) = True"
| "isLoadRequest e = False"

text \<open>The invariant that the component's \<^verbatim>\<open>invariant(...)\<close> call checks.\<close>

definition errorRecorded :: "hookState \<Rightarrow> bool" where
  "errorRecorded st = (viewState st = ERROR \<longrightarrow> lastErrorEvent st \<noteq> None)"

text \<open>The item of a compiled regular expression that a pattern character becomes.\<close>

definition rxItemOf :: "char \<Rightarrow> rxItem" where
  "rxItemOf c = (if c = CHR ''*'' then DotStar else Lit c)"

section \<open>Theorems\<close>

subsection \<open>The compiled whitelist\<close>

lemma escapeStringRegexp_no_star: "escapeStringRegexp p \<noteq> CHR ''*'' # r"
  by (cases p) (auto simp: matchOperators_def backslash_def)

lemma replaceEscapedStar_Cons:
  "(\<And>r. s \<noteq> CHR ''*'' # r) \<Longrightarrow> replaceEscapedStar (c # s) = c # replaceEscapedStar s"
  by (cases s) auto

lemma replaceEscapedStar_Cons_other:
  "c \<noteq> backslash \<Longrightarrow> replaceEscapedStar (c # s) = c # replaceEscapedStar s"
  by (cases s) auto

lemma rxItems_Cons_literal:
  "s \<noteq> [] \<Longrightarrow> \<not> matchOperators c \<Longrightarrow> rxItems (c # s) = map_option ((#) (Lit c)) (rxItems s)"
  by (cases s) (auto simp: matchOperators_def backslash_def)

lemma rxItems_compiled:
  "rxItems (replaceEscapedStar (escapeStringRegexp p) @ ''$'') = Some (map rxItemOf p)"
proof (induction p)
  case Nil
  show ?case by simp
next
  case (Cons c cs)
  let ?rest = "replaceEscapedStar (escapeStringRegexp cs)"
  show ?case
  proof (cases "matchOperators c")
    case False
    then have "c \<noteq> backslash" "c \<noteq> CHR ''*''"
      by (auto simp: matchOperators_def)
    with False Cons show ?thesis
      by (simp add: replaceEscapedStar_Cons_other rxItems_Cons_literal rxItemOf_def)
  next
    case True
    show ?thesis
    proof (cases "c = CHR ''*''")
      case True
      with Cons show ?thesis
        by (simp add: matchOperators_def backslash_def rxItemOf_def)
    next
      case False
      have "replaceEscapedStar (backslash # c # escapeStringRegexp cs) = backslash # c # ?rest"
        using False by (simp add: replaceEscapedStar_Cons escapeStringRegexp_no_star)
      with True False Cons show ?thesis
        by (simp add: rxItemOf_def)
    qed
  qed
qed

lemma rxMatch_DotStar:
  "rxMatch (DotStar # items) s =
     (\<exists>k\<le>length s. list_all (\<lambda>c. \<not> lineTerminator c) (take k s) \<and> rxMatch items (drop k s))"
proof (induction s)
  case Nil
  show ?case by simp
next
  case (Cons d t)
  have "(\<exists>k\<le>length (d # t). list_all (\<lambda>c. \<not> lineTerminator c) (take k (d # t)) \<and> rxMatch items (drop k (d # t)))
      = (rxMatch items (d # t) \<or>
          (\<exists>j\<le>length t. list_all (\<lambda>c. \<not> lineTerminator c) (take (Suc j) (d # t)) \<and> rxMatch items (drop (Suc j) (d # t))))"
    (is "?L = (?A \<or> ?B)")
  proof
    assume ?L
    then obtain k where k: "k \<le> length (d # t)"
      "list_all (\<lambda>c. \<not> lineTerminator c) (take k (d # t))" "rxMatch items (drop k (d # t))"
      by blast
    show "?A \<or> ?B"
    proof (cases k)
      case 0
      with k show ?thesis by simp
    next
      case (Suc j)
      with k have "j \<le> length t" by simp
      with k Suc show ?thesis by blast
    qed
  next
    assume "?A \<or> ?B"
    then show ?L
    proof
      assume ?A
      then have "list_all (\<lambda>c. \<not> lineTerminator c) (take 0 (d # t)) \<and> rxMatch items (drop 0 (d # t))"
        by simp
      then show ?L by blast
    next
      assume ?B
      then obtain j where "j \<le> length t"
        "list_all (\<lambda>c. \<not> lineTerminator c) (take (Suc j) (d # t))" "rxMatch items (drop (Suc j) (d # t))"
        by blast
      moreover then have "Suc j \<le> length (d # t)" by simp
      ultimately show ?L by blast
    qed
  qed
  with Cons show ?case by auto
qed

lemma list_ex_upt_Suc: "list_ex P [0..<Suc n] = (\<exists>k\<le>n. P k)"
  unfolding list_ex_iff set_upt Bex_def atLeastLessThan_iff by (simp add: less_Suc_eq_le)

lemma rxMatch_glob: "rxMatch (map rxItemOf p) s = globMatchesLine p s"
proof (induction p arbitrary: s)
  case Nil
  show ?case by simp
next
  case (Cons c cs)
  show ?case
  proof (cases "c = CHR ''*''")
    case True
    then show ?thesis
      using Cons by (simp add: rxMatch_DotStar list_ex_upt_Suc rxItemOf_def del: upt_Suc)
  next
    case False
    then show ?thesis using Cons by (cases s) (auto simp: rxItemOf_def)
  qed
qed

lemma globMatchesLine_eq:
  "list_all (\<lambda>c. \<not> lineTerminator c) s \<Longrightarrow> globMatchesLine p s = globMatches p s"
proof (induction p arbitrary: s)
  case Nil
  show ?case by simp
next
  case (Cons c cs)
  have take_ok: "list_all (\<lambda>c. \<not> lineTerminator c) (take k s)" for k
    using Cons.prems by (auto simp: list_all_iff dest: in_set_takeD)
  have drop_ok: "list_all (\<lambda>c. \<not> lineTerminator c) (drop k s)" for k
    using Cons.prems by (auto simp: list_all_iff dest: in_set_dropD)
  show ?case
  proof (cases "c = CHR ''*''")
    case True
    then show ?thesis
      using Cons.IH [OF drop_ok] take_ok by (simp add: list_ex_upt_Suc del: upt_Suc)
  next
    case False
    then show ?thesis using Cons by (cases s) auto
  qed
qed

lemma regExpTest_compiled:
  "regExpTest (originWhitelistToRegex p) s = Some (globMatchesLine p s)"
  by (simp add: regExpTest_def originWhitelistToRegex_def rxItems_compiled rxMatch_glob)

lemma someTest_compiled:
  "someTest (map originWhitelistToRegex ps) origin = Inr (list_ex (\<lambda>p. globMatchesLine p origin) ps)"
  by (induction ps) (auto simp: regExpTest_compiled split: bool.splits)

lemma u_passesWhitelist_compiled:
  "u_passesWhitelist originOf (compileWhitelist W) u =
     (if extractOrigin u = [] then Inr (Some False)
      else
        (case originOf u of
           None \<Rightarrow> Inl TypeError
         | Some parsed \<Rightarrow>
             if extractOrigin u \<noteq> parsed then Inr None
             else Inr (Some (list_ex (\<lambda>p. globMatchesLine p (extractOrigin u)) (''about:blank'' # W)))))"
  unfolding u_passesWhitelist_def compileWhitelist_def someTest_compiled
  by (simp add: Let_def split: option.splits)

lemma extractOrigin_example:
  "extractOrigin ''https://example.com/index.html'' = ''https://example.com''"
  by (simp add: extractOrigin_def isAlpha_def isDigit_def isSchemeChar_def)

lemma globMatchesLine_example: "globMatchesLine ''https://*'' ''https://example.com''"
  by (simp add: lineTerminator_def)

text \<open>
  The dot of a compiled pattern does not match a line terminator. No such string
  reaches a matcher: the check hands it only an origin equal to the one that the
  URL parser serialised, and the parser removes line feeds and carriage returns.
\<close>

lemma star_rejects_line_terminator:
  "regExpTest (originWhitelistToRegex ''*'') [CHR ''a'', CHR 0x0A, CHR ''b''] = Some False"
  by (simp add: regExpTest_def originWhitelistToRegex_def matchOperators_def backslash_def
      lineTerminator_def)

lemma list_ex_glob:
  "list_all (\<lambda>c. \<not> lineTerminator c) s \<Longrightarrow>
   list_ex (\<lambda>p. globMatchesLine p s) ps = list_ex (\<lambda>p. globMatches p s) ps"
  by (simp add: globMatchesLine_eq)

text \<open>
  C2. For a URL whose parsed origin, as the URL parser serialises it, holds no line
  terminator, the whitelist check returns exactly \<open>true\<close> if and only if the
  extracted origin is not empty, equals the parsed origin, and is matched by a glob
  pattern of the whitelist extended with \<^verbatim>\<open>about:blank\<close>, where \<^verbatim>\<open>*\<close> matches any
  character sequence and every other character itself. \<open>compileWhitelist\<close>
  prepends the sentinel and turns each pattern into a regular expression that, on a
  string the check can hand it, tests exactly that glob. The check returns \<open>false\<close>
  when no origin is extracted and \<open>null\<close> when the two origins differ.
\<close>

theorem passesWhitelist_iff_glob:
  assumes "\<forall>parsed. originOf u = Some parsed \<longrightarrow> list_all (\<lambda>c. \<not> lineTerminator c) parsed"
  shows
  "(u_passesWhitelist originOf (compileWhitelist W) u = Inr (Some True) \<longleftrightarrow>
      extractOrigin u \<noteq> [] \<and> originOf u = Some (extractOrigin u)
      \<and> list_ex (\<lambda>p. globMatches p (extractOrigin u)) (''about:blank'' # W))
   \<and> compileWhitelist W = map originWhitelistToRegex (''about:blank'' # W)
   \<and> (list_all (\<lambda>c. \<not> lineTerminator c) s \<longrightarrow>
        regExpTest (originWhitelistToRegex p) s = Some (globMatches p s))
   \<and> (extractOrigin u = [] \<longrightarrow> u_passesWhitelist originOf (compileWhitelist W) u = Inr (Some False))
   \<and> (extractOrigin u \<noteq> [] \<and> originOf u = Some other \<and> other \<noteq> extractOrigin u
        \<longrightarrow> u_passesWhitelist originOf (compileWhitelist W) u = Inr None)"
proof -
  have "u_passesWhitelist originOf (compileWhitelist W) u = Inr (Some True) \<longleftrightarrow>
      extractOrigin u \<noteq> [] \<and> originOf u = Some (extractOrigin u)
      \<and> list_ex (\<lambda>p. globMatches p (extractOrigin u)) (''about:blank'' # W)"
  proof (cases "originOf u = Some (extractOrigin u)")
    case True
    with assms have "list_all (\<lambda>c. \<not> lineTerminator c) (extractOrigin u)"
      by simp
    then have "list_ex (\<lambda>p. globMatchesLine p (extractOrigin u)) (''about:blank'' # W)
        = list_ex (\<lambda>p. globMatches p (extractOrigin u)) (''about:blank'' # W)"
      by (rule list_ex_glob)
    with True show ?thesis
      unfolding u_passesWhitelist_compiled by auto
  next
    case False
    then show ?thesis
      unfolding u_passesWhitelist_compiled by (auto split: option.splits)
  qed
  moreover have "compileWhitelist W = map originWhitelistToRegex (''about:blank'' # W)"
    by (simp add: compileWhitelist_def)
  moreover have "list_all (\<lambda>c. \<not> lineTerminator c) s \<longrightarrow>
        regExpTest (originWhitelistToRegex p) s = Some (globMatches p s)"
    by (simp add: regExpTest_compiled globMatchesLine_eq)
  moreover have "extractOrigin u = [] \<longrightarrow> u_passesWhitelist originOf (compileWhitelist W) u = Inr (Some False)"
    unfolding u_passesWhitelist_compiled by simp
  moreover have "extractOrigin u \<noteq> [] \<and> originOf u = Some other \<and> other \<noteq> extractOrigin u
        \<longrightarrow> u_passesWhitelist originOf (compileWhitelist W) u = Inr None"
    unfolding u_passesWhitelist_compiled by auto
  ultimately show ?thesis by blast
qed

text \<open>
  With the whitelist \<^verbatim>\<open>['https://*.example.com', 'https://example.com']\<close>: a page of
  \<^verbatim>\<open>https://example.com\<close> passes; \<^verbatim>\<open>http://evil.test/\<close> has an origin that no
  pattern matches; with the default port written out the extracted and the parsed
  origin differ; a string with no scheme has no origin. In a pattern the dot is a
  literal and the star matches any sequence.
\<close>

theorem passesWhitelist_iff_glob_witness:
  "extractOrigin ''https://example.com/index.html'' = ''https://example.com''
   \<and> u_passesWhitelist exampleOrigin
        (compileWhitelist [''https://*.example.com'', ''https://example.com''])
        ''https://example.com/index.html'' = Inr (Some True)
   \<and> u_passesWhitelist exampleOrigin
        (compileWhitelist [''https://*.example.com'', ''https://example.com''])
        ''http://evil.test/'' \<noteq> Inr (Some True)
   \<and> u_passesWhitelist exampleOrigin
        (compileWhitelist [''https://*.example.com'', ''https://example.com''])
        ''https://example.com:443/'' = Inr None
   \<and> u_passesWhitelist exampleOrigin
        (compileWhitelist [''https://*.example.com'', ''https://example.com''])
        ''example.com/index.html'' = Inr (Some False)
   \<and> compileWhitelist [''https://*.example.com'', ''https://example.com'']
        = [''^about:blank$'', [CHR ''^''] @ ''https://.*'' @ [CHR 0x5C] @ ''.example'' @ [CHR 0x5C] @ ''.com$'',
           [CHR ''^''] @ ''https://example'' @ [CHR 0x5C] @ ''.com$'']
   \<and> regExpTest (originWhitelistToRegex ''https://*.example.com'') ''https://api.example.com'' = Some True
   \<and> regExpTest (originWhitelistToRegex ''https://*.example.com'') ''https://apiXexample.com'' = Some False
   \<and> regExpTest (originWhitelistToRegex ''https://*.example.com'') ''https://api.example.com.evil.test''
        = Some False"
proof -
  let ?W = "[''https://*.example.com'', ''https://example.com'']"
  have parser: "\<forall>parsed. exampleOrigin v = Some parsed \<longrightarrow> list_all (\<lambda>c. \<not> lineTerminator c) parsed" for v
    by (simp add: exampleOrigin_def lineTerminator_def)
  note fact = passesWhitelist_iff_glob [where originOf = exampleOrigin and W = ?W, OF parser]
  have origins: "extractOrigin ''https://example.com/index.html'' = ''https://example.com''"
    "extractOrigin ''http://evil.test/'' = ''http://evil.test''"
    "extractOrigin ''https://example.com:443/'' = ''https://example.com:443''"
    "extractOrigin ''example.com/index.html'' = []"
    by (simp_all add: extractOrigin_def isAlpha_def isDigit_def isSchemeChar_def)
  have "u_passesWhitelist exampleOrigin (compileWhitelist ?W) ''https://example.com/index.html''
      = Inr (Some True)"
    using fact [where u = "''https://example.com/index.html''", THEN conjunct1] origins
    by (simp add: exampleOrigin_def)
  moreover have "u_passesWhitelist exampleOrigin (compileWhitelist ?W) ''http://evil.test/''
      \<noteq> Inr (Some True)"
    using fact [where u = "''http://evil.test/''", THEN conjunct1] origins
    by (simp add: exampleOrigin_def)
  moreover have "u_passesWhitelist exampleOrigin (compileWhitelist ?W) ''https://example.com:443/''
      = Inr None"
    using fact [where u = "''https://example.com:443/''" and other = "''https://example.com''",
        THEN conjunct2, THEN conjunct2, THEN conjunct2, THEN conjunct2] origins
    by (simp add: exampleOrigin_def)
  moreover have "u_passesWhitelist exampleOrigin (compileWhitelist ?W) ''example.com/index.html''
      = Inr (Some False)"
    using fact [where u = "''example.com/index.html''",
        THEN conjunct2, THEN conjunct2, THEN conjunct2, THEN conjunct1] origins
    by simp
  moreover have "compileWhitelist ?W
        = [''^about:blank$'', [CHR ''^''] @ ''https://.*'' @ [CHR 0x5C] @ ''.example'' @ [CHR 0x5C] @ ''.com$'',
           [CHR ''^''] @ ''https://example'' @ [CHR 0x5C] @ ''.com$'']"
    by (simp add: compileWhitelist_def originWhitelistToRegex_def matchOperators_def backslash_def)
  moreover have "regExpTest (originWhitelistToRegex ''https://*.example.com'') ''https://api.example.com''
      = Some True"
    using fact [where u = "[]" and p = "''https://*.example.com''" and s = "''https://api.example.com''",
        THEN conjunct2, THEN conjunct2, THEN conjunct1]
    by (simp add: lineTerminator_def)
  moreover have "regExpTest (originWhitelistToRegex ''https://*.example.com'') ''https://apiXexample.com''
      = Some False"
    using fact [where u = "[]" and p = "''https://*.example.com''" and s = "''https://apiXexample.com''",
        THEN conjunct2, THEN conjunct2, THEN conjunct1]
    by (simp add: lineTerminator_def)
  moreover have "regExpTest (originWhitelistToRegex ''https://*.example.com'')
      ''https://api.example.com.evil.test'' = Some False"
    using fact [where u = "[]" and p = "''https://*.example.com''"
        and s = "''https://api.example.com.evil.test''",
        THEN conjunct2, THEN conjunct2, THEN conjunct1]
    by (simp add: lineTerminator_def)
  ultimately show ?thesis using origins(1) by blast
qed

subsection \<open>The load-request interceptor\<close>

lemma extractOrigin_empty_host: "extractOrigin ''https://'' = ''https://''"
  by (simp add: extractOrigin_def isAlpha_def isDigit_def isSchemeChar_def)

lemma u_passesWhitelist_raises:
  "extractOrigin u \<noteq> [] \<Longrightarrow> originOf u = None \<Longrightarrow> u_passesWhitelist originOf ws u = Inl TypeError"
  by (simp add: u_passesWhitelist_def)

text \<open>
  When the whitelist check returns, the interceptor issues one decision, for the
  event's URL and lock identifier: \<open>false\<close> unless the check returned exactly \<open>true\<close>,
  else what the host's callback returns, else \<open>true\<close>.
\<close>

lemma interceptor_decides_once:
  assumes "u_passesWhitelist originOf (compileWhitelist W) (url ev) = Inr r"
  shows "fst (createOnShouldStartLoadWithRequest originOf W cb ev) = None
    \<and> filter isLoadRequest (snd (createOnShouldStartLoadWithRequest originOf W cb ev)) =
        [LoadRequest (r = Some True \<and> (case cb of None \<Rightarrow> True | Some f \<Rightarrow> f ev)) (url ev) (lockIdentifier ev)]"
  using assms by (auto simp: createOnShouldStartLoadWithRequest_def split: option.splits)

text \<open>
  C1, at the input where the code leaves the claim. With the default whitelist and a
  host callback that allows every request, the event for the URL \<^verbatim>\<open>https://\<close>
  (which \<^verbatim>\<open>new URL\<close> rejects) makes the interceptor raise \<open>TypeError\<close> before it
  reaches \<^verbatim>\<open>loadRequest\<close>: no decision is issued for the lock identifier.
\<close>

theorem interceptor_issues_no_decision:
  "createOnShouldStartLoadWithRequest exampleOrigin defaultOriginWhitelist (Some (\<lambda>e. True))
     (exampleEvent ''https://'') = (Some TypeError, [])
   \<and> filter isLoadRequest (snd (createOnShouldStartLoadWithRequest exampleOrigin defaultOriginWhitelist
        (Some (\<lambda>e. True)) (exampleEvent ''https://''))) = []"
  by (simp add: createOnShouldStartLoadWithRequest_def exampleEvent_def
      u_passesWhitelist_raises extractOrigin_empty_host exampleOrigin_def)

text \<open>
  C10. \<open>extractOrigin\<close> returns the non-empty prefix \<^verbatim>\<open>https://\<close> for the URL
  \<^verbatim>\<open>https://\<close>; and for every URL with a non-empty extracted origin that the URL
  parser rejects, the whitelist check raises \<open>TypeError\<close> (it returns neither
  \<open>true\<close>, \<open>false\<close> nor \<open>null\<close>), and the load-request interceptor, which calls it
  unguarded, raises too and issues no decision.
\<close>

theorem whitelist_check_not_total:
  "extractOrigin ''https://'' = ''https://''
   \<and> (extractOrigin (url ev) \<noteq> [] \<and> originOf (url ev) = None \<longrightarrow>
        u_passesWhitelist originOf (compileWhitelist W) (url ev) = Inl TypeError
        \<and> createOnShouldStartLoadWithRequest originOf W cb ev = (Some TypeError, []))"
  by (simp add: extractOrigin_empty_host u_passesWhitelist_raises
      createOnShouldStartLoadWithRequest_def)

theorem whitelist_check_not_total_witness:
  "u_passesWhitelist exampleOrigin (compileWhitelist defaultOriginWhitelist) ''https://'' = Inl TypeError
   \<and> createOnShouldStartLoadWithRequest exampleOrigin defaultOriginWhitelist None
        (exampleEvent ''https://'') = (Some TypeError, [])"
  using whitelist_check_not_total [of "exampleEvent ''https://''" exampleOrigin defaultOriginWhitelist None]
  by (simp add: exampleEvent_def exampleOrigin_def)

subsection \<open>The navigation events\<close>

lemma extractOrigin_Nil: "extractOrigin [] = []"
  by (simp add: extractOrigin_def)

text \<open>The guard of the second text changes no result: an empty URL has no origin.\<close>

lemma passesWhitelist2_eq: "passesWhitelist2 pf props u = passesWhitelist pf props u"
  by (simp add: passesWhitelist2_def passesWhitelist_def u_passesWhitelist_def extractOrigin_Nil)

lemma passesWhitelist_example:
  "passesWhitelist (examplePlatform opsys) exampleProps ''https://example.com/index.html'' = Inr (Some True)"
  by (simp add: passesWhitelist_def examplePlatform_def exampleProps_def defaultOriginWhitelist_def
      u_passesWhitelist_compiled exampleOrigin_def extractOrigin_example lineTerminator_def)

lemma extractOrigin_evil: "extractOrigin ''http://evil.test/'' = ''http://evil.test''"
  by (simp add: extractOrigin_def isAlpha_def isDigit_def isSchemeChar_def)

lemma passesWhitelist_evil:
  "passesWhitelist (examplePlatform opsys) exampleProps ''http://evil.test/'' = Inr (Some False)"
  by (simp add: passesWhitelist_def examplePlatform_def exampleProps_def defaultOriginWhitelist_def
      u_passesWhitelist_compiled exampleOrigin_def extractOrigin_evil)

lemma startUrl_unchanged:
  "(\<And>e. i \<noteq> LoadingStart e) \<Longrightarrow> startUrl (fst (snd (handle pf props st i))) = startUrl st"
  by (cases i)
    (auto simp: onLoadingProgress_def finishLoading_def onLoadingFinish_def onLoadingError_def
      onMessage_def deliverMessage_def onShouldStartLoadWithRequest_def reload_def onHttpError_def
      onRenderProcessGone_def onContentProcessDidTerminate_def Let_def
      split: sum.splits option.splits prod.splits)

lemma startUrl_unchanged2:
  "(\<And>e. i \<noteq> LoadingStart e) \<Longrightarrow> startUrl (fst (snd (handle2 pf props st i))) = startUrl st"
  by (cases i)
    (auto simp: onLoadingProgress2_def finishLoading_def onLoadingFinish2_def onLoadingError_def
      onMessage2_def deliverMessage_def onShouldStartLoadWithRequest_def reload_def Let_def
      split: sum.splits option.splits prod.splits)

text \<open>
  C5. A load-finish event calls \<^verbatim>\<open>onLoad\<close> and then \<^verbatim>\<open>onLoadEnd\<close> (each when the
  host supplied it) whatever the whitelist says; nothing else is called, except
  that the first text of the hook reports the navigation state after a finished
  load that passes. The state becomes the same state with view state \<open>IDLE\<close>
  exactly when the whitelist check on the finished URL returns \<open>true\<close> and, on
  Android, the URL equals the recorded start URL; in every other case, so whenever
  the whitelist fails, the state is unchanged. The recorded start URL is the URL of
  the most recent load-start event: the load-start handler stores it and no other
  input changes it. This holds for both texts of the hook.
\<close>

theorem onLoadingFinish_calls_and_state:
  "snd (snd (onLoadingFinish pf props st ev)) =
      (if onLoad props then [OnLoad ev] else []) @ (if onLoadEnd props then [OnLoadEnd ev] else [])
        @ (if u_passesWhitelist (urlOrigin pf) (compileWhitelist (originWhitelist props))
                (url (nativeEvent ev)) = Inr (Some True)
              \<and> onNavigationStateChange props
           then [OnNavigationStateChange (nativeEvent ev)] else [])
   \<and> fst (snd (onLoadingFinish pf props st ev)) =
      (if u_passesWhitelist (urlOrigin pf) (compileWhitelist (originWhitelist props))
              (url (nativeEvent ev)) = Inr (Some True)
          \<and> (platformOS pf = ''android'' \<longrightarrow> startUrl st = Some (url (nativeEvent ev)))
       then st\<lparr>viewState := IDLE\<rparr> else st)
   \<and> snd (snd (onLoadingFinish2 pf props st ev)) =
      (if onLoad props then [OnLoad ev] else []) @ (if onLoadEnd props then [OnLoadEnd ev] else [])
   \<and> fst (snd (onLoadingFinish2 pf props st ev)) =
      (if u_passesWhitelist (urlOrigin pf) (compileWhitelist (originWhitelist props))
              (url (nativeEvent ev)) = Inr (Some True)
          \<and> (platformOS pf = ''android'' \<longrightarrow> startUrl st = Some (url (nativeEvent ev)))
       then st\<lparr>viewState := IDLE\<rparr> else st)
   \<and> fst (snd (onLoadingStart props st started)) = st\<lparr>startUrl := Some (url (nativeEvent started))\<rparr>
   \<and> fst (snd (onLoadingStart2 props st started)) = st\<lparr>startUrl := Some (url (nativeEvent started))\<rparr>
   \<and> ((\<forall>e. i \<noteq> LoadingStart e) \<longrightarrow>
        startUrl (fst (snd (handle pf props st i))) = startUrl st
        \<and> startUrl (fst (snd (handle2 pf props st i))) = startUrl st)"
proof -
  have "snd (snd (onLoadingFinish pf props st ev)) =
      (if onLoad props then [OnLoad ev] else []) @ (if onLoadEnd props then [OnLoadEnd ev] else [])
        @ (if u_passesWhitelist (urlOrigin pf) (compileWhitelist (originWhitelist props))
                (url (nativeEvent ev)) = Inr (Some True)
              \<and> onNavigationStateChange props
           then [OnNavigationStateChange (nativeEvent ev)] else [])"
    by (auto simp: onLoadingFinish_def passesWhitelist_def updateNavigationState_def callIf_def
        Let_def split: sum.splits)
  moreover have first: "fst (snd (onLoadingFinish pf props st ev)) =
      (if u_passesWhitelist (urlOrigin pf) (compileWhitelist (originWhitelist props))
              (url (nativeEvent ev)) = Inr (Some True)
          \<and> (platformOS pf = ''android'' \<longrightarrow> startUrl st = Some (url (nativeEvent ev)))
       then st\<lparr>viewState := IDLE\<rparr> else st)"
    by (auto simp: onLoadingFinish_def passesWhitelist_def Let_def split: sum.splits)
  moreover have "snd (snd (onLoadingFinish2 pf props st ev)) =
      (if onLoad props then [OnLoad ev] else []) @ (if onLoadEnd props then [OnLoadEnd ev] else [])"
    by (auto simp: onLoadingFinish2_def callIf_def Let_def split: sum.splits)
  moreover have "fst (snd (onLoadingFinish2 pf props st ev)) = fst (snd (onLoadingFinish pf props st ev))"
    by (auto simp: onLoadingFinish2_def onLoadingFinish_def passesWhitelist2_eq Let_def split: sum.splits)
  moreover have "fst (snd (onLoadingStart props st started)) = st\<lparr>startUrl := Some (url (nativeEvent started))\<rparr>"
    by (simp add: onLoadingStart_def)
  moreover have "fst (snd (onLoadingStart2 props st started)) = st\<lparr>startUrl := Some (url (nativeEvent started))\<rparr>"
    by (simp add: onLoadingStart2_def)
  ultimately show ?thesis
    using startUrl_unchanged [of i pf props st] startUrl_unchanged2 [of i pf props st]
    by (simp del: One_nat_def)
qed

lemma u_passesWhitelist_example:
  "u_passesWhitelist exampleOrigin (compileWhitelist [''https://*'']) ''https://example.com/index.html''
     = Inr (Some True)"
  "u_passesWhitelist exampleOrigin (compileWhitelist [''https://*'']) ''http://evil.test/''
     = Inr (Some False)"
  by (simp_all add: u_passesWhitelist_compiled exampleOrigin_def extractOrigin_example
      extractOrigin_evil lineTerminator_def)

text \<open>
  On Android, with every callback supplied and the default whitelist: after a start
  at the same URL a finished load calls \<^verbatim>\<open>onLoad\<close>, \<^verbatim>\<open>onLoadEnd\<close> and
  \<^verbatim>\<open>onNavigationStateChange\<close> in this order and ends in \<open>IDLE\<close>; after a start at
  another URL the state stays \<open>LOADING\<close>; at a URL that fails the whitelist the two
  callbacks are still called and the state is as before. The second text calls the
  two callbacks only.
\<close>

theorem onLoadingFinish_calls_and_state_witness:
  "snd (onLoadingFinish
      \<lparr>urlOrigin = exampleOrigin, jsonParse = exampleParse, jsonStringify = exampleStringify,
       platformOS = ''android''\<rparr>
      exampleProps
      \<lparr>viewState = LOADING, lastErrorEvent = None, startUrl = Some ''https://example.com/index.html''\<rparr>
      \<lparr>nativeEvent = \<lparr>url = ''https://example.com/index.html'', loading = False, title = ''Example'',
         canGoBack = False, canGoForward = False, lockIdentifier = 7\<rparr>, isDefaultPrevented = False\<rparr>)
     = (\<lparr>viewState = IDLE, lastErrorEvent = None, startUrl = Some ''https://example.com/index.html''\<rparr>,
        [OnLoad \<lparr>nativeEvent = \<lparr>url = ''https://example.com/index.html'', loading = False,
           title = ''Example'', canGoBack = False, canGoForward = False, lockIdentifier = 7\<rparr>,
           isDefaultPrevented = False\<rparr>,
         OnLoadEnd \<lparr>nativeEvent = \<lparr>url = ''https://example.com/index.html'', loading = False,
           title = ''Example'', canGoBack = False, canGoForward = False, lockIdentifier = 7\<rparr>,
           isDefaultPrevented = False\<rparr>,
         OnNavigationStateChange \<lparr>url = ''https://example.com/index.html'', loading = False,
           title = ''Example'', canGoBack = False, canGoForward = False, lockIdentifier = 7\<rparr>])
   \<and> fst (snd (onLoadingFinish
      \<lparr>urlOrigin = exampleOrigin, jsonParse = exampleParse, jsonStringify = exampleStringify,
       platformOS = ''android''\<rparr>
      exampleProps
      \<lparr>viewState = LOADING, lastErrorEvent = None, startUrl = Some ''https://example.org/''\<rparr>
      \<lparr>nativeEvent = \<lparr>url = ''https://example.com/index.html'', loading = False, title = ''Example'',
         canGoBack = False, canGoForward = False, lockIdentifier = 7\<rparr>, isDefaultPrevented = False\<rparr>))
     = \<lparr>viewState = LOADING, lastErrorEvent = None, startUrl = Some ''https://example.org/''\<rparr>
   \<and> snd (onLoadingFinish
      \<lparr>urlOrigin = exampleOrigin, jsonParse = exampleParse, jsonStringify = exampleStringify,
       platformOS = ''ios''\<rparr>
      exampleProps
      \<lparr>viewState = LOADING, lastErrorEvent = None, startUrl = None\<rparr>
      \<lparr>nativeEvent = \<lparr>url = ''http://evil.test/'', loading = False, title = ''Example'',
         canGoBack = False, canGoForward = False, lockIdentifier = 7\<rparr>, isDefaultPrevented = False\<rparr>)
     = (\<lparr>viewState = LOADING, lastErrorEvent = None, startUrl = None\<rparr>,
        [OnLoad \<lparr>nativeEvent = \<lparr>url = ''http://evil.test/'', loading = False,
           title = ''Example'', canGoBack = False, canGoForward = False, lockIdentifier = 7\<rparr>,
           isDefaultPrevented = False\<rparr>,
         OnLoadEnd \<lparr>nativeEvent = \<lparr>url = ''http://evil.test/'', loading = False,
           title = ''Example'', canGoBack = False, canGoForward = False, lockIdentifier = 7\<rparr>,
           isDefaultPrevented = False\<rparr>])
   \<and> snd (onLoadingFinish2
      \<lparr>urlOrigin = exampleOrigin, jsonParse = exampleParse, jsonStringify = exampleStringify,
       platformOS = ''ios''\<rparr>
      exampleProps
      \<lparr>viewState = LOADING, lastErrorEvent = None, startUrl = None\<rparr>
      \<lparr>nativeEvent = \<lparr>url = ''https://example.com/index.html'', loading = False, title = ''Example'',
         canGoBack = False, canGoForward = False, lockIdentifier = 7\<rparr>, isDefaultPrevented = False\<rparr>)
     = (\<lparr>viewState = IDLE, lastErrorEvent = None, startUrl = None\<rparr>,
        [OnLoad \<lparr>nativeEvent = \<lparr>url = ''https://example.com/index.html'', loading = False,
           title = ''Example'', canGoBack = False, canGoForward = False, lockIdentifier = 7\<rparr>,
           isDefaultPrevented = False\<rparr>,
         OnLoadEnd \<lparr>nativeEvent = \<lparr>url = ''https://example.com/index.html'', loading = False,
           title = ''Example'', canGoBack = False, canGoForward = False, lockIdentifier = 7\<rparr>,
           isDefaultPrevented = False\<rparr>])
   \<and> fst (snd (onLoadingStart exampleProps
        \<lparr>viewState = LOADING, lastErrorEvent = None, startUrl = None\<rparr>
        \<lparr>nativeEvent = \<lparr>url = ''https://example.com/index.html'', loading = True, title = ''Example'',
           canGoBack = False, canGoForward = False, lockIdentifier = 7\<rparr>, isDefaultPrevented = False\<rparr>))
     = \<lparr>viewState = LOADING, lastErrorEvent = None, startUrl = Some ''https://example.com/index.html''\<rparr>"
proof -
  let ?android = "\<lparr>urlOrigin = exampleOrigin, jsonParse = exampleParse,
    jsonStringify = exampleStringify, platformOS = ''android''\<rparr>"
  let ?ios = "\<lparr>urlOrigin = exampleOrigin, jsonParse = exampleParse,
    jsonStringify = exampleStringify, platformOS = ''ios''\<rparr>"
  let ?ev = "\<lambda>u. \<lparr>nativeEvent = \<lparr>url = u, loading = False, title = ''Example'',
         canGoBack = False, canGoForward = False, lockIdentifier = 7\<rparr>, isDefaultPrevented = False\<rparr>"
  let ?st = "\<lambda>u. \<lparr>viewState = LOADING, lastErrorEvent = None, startUrl = u\<rparr>"
  let ?start = "\<lparr>nativeEvent = \<lparr>url = ''https://example.com/index.html'', loading = True,
    title = ''Example'', canGoBack = False, canGoForward = False, lockIdentifier = 7\<rparr>,
    isDefaultPrevented = False\<rparr>"
  have props: "onLoad exampleProps" "onLoadEnd exampleProps" "onNavigationStateChange exampleProps"
    "originWhitelist exampleProps = [''https://*'']"
    by (simp_all add: exampleProps_def defaultOriginWhitelist_def)
  note a = onLoadingFinish_calls_and_state [of ?android exampleProps
      "?st (Some ''https://example.com/index.html'')" "?ev ''https://example.com/index.html''"]
  note b = onLoadingFinish_calls_and_state [of ?android exampleProps
      "?st (Some ''https://example.org/'')" "?ev ''https://example.com/index.html''"]
  note c = onLoadingFinish_calls_and_state [of ?ios exampleProps "?st None" "?ev ''http://evil.test/''"]
  note d = onLoadingFinish_calls_and_state [of ?ios exampleProps "?st None"
      "?ev ''https://example.com/index.html''"]
  note e = onLoadingFinish_calls_and_state [of _ exampleProps "?st None" _ ?start]
  have first: "snd (onLoadingFinish ?android exampleProps (?st (Some ''https://example.com/index.html''))
        (?ev ''https://example.com/index.html''))
      = (\<lparr>viewState = IDLE, lastErrorEvent = None, startUrl = Some ''https://example.com/index.html''\<rparr>,
         [OnLoad (?ev ''https://example.com/index.html''), OnLoadEnd (?ev ''https://example.com/index.html''),
          OnNavigationStateChange (nativeEvent (?ev ''https://example.com/index.html''))])"
    using a [THEN conjunct1] a [THEN conjunct2, THEN conjunct1] props u_passesWhitelist_example
    by (simp add: prod_eq_iff)
  have second: "fst (snd (onLoadingFinish ?android exampleProps (?st (Some ''https://example.org/''))
        (?ev ''https://example.com/index.html''))) = ?st (Some ''https://example.org/'')"
    using b [THEN conjunct2, THEN conjunct1] props u_passesWhitelist_example by simp
  have third: "snd (onLoadingFinish ?ios exampleProps (?st None) (?ev ''http://evil.test/''))
      = (?st None, [OnLoad (?ev ''http://evil.test/''), OnLoadEnd (?ev ''http://evil.test/'')])"
    using c [THEN conjunct1] c [THEN conjunct2, THEN conjunct1] props u_passesWhitelist_example
    by (simp add: prod_eq_iff)
  have fourth: "snd (onLoadingFinish2 ?ios exampleProps (?st None) (?ev ''https://example.com/index.html''))
      = (\<lparr>viewState = IDLE, lastErrorEvent = None, startUrl = None\<rparr>,
         [OnLoad (?ev ''https://example.com/index.html''), OnLoadEnd (?ev ''https://example.com/index.html'')])"
    using d [THEN conjunct2, THEN conjunct2, THEN conjunct1]
      d [THEN conjunct2, THEN conjunct2, THEN conjunct2, THEN conjunct1] props u_passesWhitelist_example
    by (simp add: prod_eq_iff)
  have fifth: "fst (snd (onLoadingStart exampleProps (?st None) ?start))
      = ?st (Some ''https://example.com/index.html'')"
    using e [THEN conjunct2, THEN conjunct2, THEN conjunct2, THEN conjunct2, THEN conjunct1]
    by simp
  show ?thesis
    using first second third fourth fifth by simp
qed

text \<open>
  In the second text of the hook a load-progress event changes the state only when
  its URL passes the whitelist, the platform is Android, the progress is \<open>1\<close> and
  the view state is \<open>LOADING\<close>; the new view state is then \<open>IDLE\<close>.
\<close>

lemma onLoadingProgress2_gated:
  "fst (snd (onLoadingProgress2 pf props st ev)) =
     (if passesWhitelist2 pf props (url (nativeEvent ev)) = Inr (Some True)
         \<and> platformOS pf = ''android'' \<and> progress (nativeEvent ev) = 1 \<and> viewState st = LOADING
      then st\<lparr>viewState := IDLE\<rparr> else st)"
  by (auto simp: onLoadingProgress2_def finishLoading_def split: sum.splits)

text \<open>
  C6, at the input where the code leaves the claim. In the first text of the hook
  (lines 226-234) \<^verbatim>\<open>onLoadingProgress\<close> does not consult the whitelist: on Android, a
  progress event at \<open>1\<close> for the URL \<^verbatim>\<open>http://evil.test/\<close>, which fails the default
  whitelist, takes the view state from \<open>LOADING\<close> to \<open>IDLE\<close>.
\<close>

theorem onLoadingProgress_ignores_whitelist:
  "passesWhitelist (examplePlatform ''android'') exampleProps ''http://evil.test/'' = Inr (Some False)
   \<and> viewState (initialState exampleProps) = LOADING
   \<and> fst (snd (onLoadingProgress (examplePlatform ''android'') exampleProps (initialState exampleProps)
        (exampleProgress ''http://evil.test/'' 1))) = (initialState exampleProps)\<lparr>viewState := IDLE\<rparr>"
proof -
  have "fst (snd (onLoadingProgress (examplePlatform ''android'') exampleProps (initialState exampleProps)
        (exampleProgress ''http://evil.test/'' 1))) = (initialState exampleProps)\<lparr>viewState := IDLE\<rparr>"
    by (simp add: onLoadingProgress_def finishLoading_def examplePlatform_def exampleProgress_def
        initialState_def exampleProps_def)
  moreover have "viewState (initialState exampleProps) = LOADING"
    by (simp add: initialState_def exampleProps_def)
  ultimately show ?thesis
    using passesWhitelist_evil [of "''android''"] by simp
qed

subsection \<open>The error state\<close>

lemma onLoadingError_state:
  "fst (snd (onLoadingError props st ev)) =
     (if isDefaultPrevented ev then st
      else st\<lparr>viewState := ERROR, lastErrorEvent := Some (nativeEvent ev)\<rparr>)"
  by (simp add: onLoadingError_def Let_def)

lemma handle_enters_ERROR:
  assumes "viewState (fst (snd (handle pf props st i))) = ERROR" "viewState st \<noteq> ERROR"
  shows "\<exists>ev. i = LoadingError ev \<and> \<not> isDefaultPrevented ev
           \<and> lastErrorEvent (fst (snd (handle pf props st i))) = Some (nativeEvent ev)"
  using assms
  by (cases i)
    (auto simp: onLoadingStart_def onLoadingProgress_def finishLoading_def onLoadingFinish_def
      onLoadingError_def onMessage_def deliverMessage_def onShouldStartLoadWithRequest_def
      reload_def onHttpError_def onRenderProcessGone_def onContentProcessDidTerminate_def Let_def
      split: sum.splits option.splits prod.splits if_splits)

lemma handle2_enters_ERROR:
  assumes "viewState (fst (snd (handle2 pf props st i))) = ERROR" "viewState st \<noteq> ERROR"
  shows "\<exists>ev. i = LoadingError ev \<and> \<not> isDefaultPrevented ev
           \<and> lastErrorEvent (fst (snd (handle2 pf props st i))) = Some (nativeEvent ev)"
  using assms
  by (cases i)
    (auto simp: onLoadingStart2_def onLoadingProgress2_def finishLoading_def onLoadingFinish2_def
      onLoadingError_def onMessage2_def deliverMessage_def onShouldStartLoadWithRequest_def
      reload_def Let_def
      split: sum.splits option.splits prod.splits if_splits)

lemma lastErrorEvent_kept:
  "lastErrorEvent st \<noteq> None \<Longrightarrow> lastErrorEvent (fst (snd (handle pf props st i))) \<noteq> None"
  by (cases i)
    (auto simp: onLoadingStart_def onLoadingProgress_def finishLoading_def onLoadingFinish_def
      onLoadingError_def onMessage_def deliverMessage_def onShouldStartLoadWithRequest_def
      reload_def onHttpError_def onRenderProcessGone_def onContentProcessDidTerminate_def Let_def
      split: sum.splits option.splits prod.splits if_splits)

lemma lastErrorEvent_kept2:
  "lastErrorEvent st \<noteq> None \<Longrightarrow> lastErrorEvent (fst (snd (handle2 pf props st i))) \<noteq> None"
  by (cases i)
    (auto simp: onLoadingStart2_def onLoadingProgress2_def finishLoading_def onLoadingFinish2_def
      onLoadingError_def onMessage2_def deliverMessage_def onShouldStartLoadWithRequest_def
      reload_def Let_def
      split: sum.splits option.splits prod.splits if_splits)

lemma errorRecorded_handle:
  "errorRecorded st \<Longrightarrow> errorRecorded (fst (snd (handle pf props st i)))"
  unfolding errorRecorded_def
  using handle_enters_ERROR [of pf props st i] lastErrorEvent_kept [of st pf props i]
  by (cases "viewState st = ERROR") auto

lemma errorRecorded_handle2:
  "errorRecorded st \<Longrightarrow> errorRecorded (fst (snd (handle2 pf props st i)))"
  unfolding errorRecorded_def
  using handle2_enters_ERROR [of pf props st i] lastErrorEvent_kept2 [of st pf props i]
  by (cases "viewState st = ERROR") auto

lemma errorRecorded_initialState: "errorRecorded (initialState props)"
  by (simp add: errorRecorded_def initialState_def)

lemma errorRecorded_stateAfter: "errorRecorded (stateAfter pf props inputs)"
  unfolding stateAfter_def
  by (induction inputs rule: rev_induct) (simp_all add: errorRecorded_initialState errorRecorded_handle)

lemma errorRecorded_stateAfter2: "errorRecorded (stateAfter2 pf props inputs)"
  unfolding stateAfter2_def
  by (induction inputs rule: rev_induct) (simp_all add: errorRecorded_initialState errorRecorded_handle2)

lemma renderOtherView_ok: "errorRecorded st \<Longrightarrow> renderOtherView st \<noteq> Inl InvariantViolation"
  by (auto simp: errorRecorded_def renderOtherView_def split: option.splits)

text \<open>
  C7. After any sequence of inputs from the initial state, in both texts of the
  hook, a view state \<open>ERROR\<close> comes with a stored error record, so the component's
  \<^verbatim>\<open>invariant(lastErrorEvent != null)\<close> never fails. A load-error event that is not
  default-prevented sets the view state to \<open>ERROR\<close> and stores the event's record
  (with its domain, code and description) in the same step; a default-prevented one
  leaves the state as it is; and an input that takes the view state into \<open>ERROR\<close>
  is a load-error event that is not default-prevented.
\<close>

theorem error_state_has_record:
  "(viewState (stateAfter pf props inputs) = ERROR \<longrightarrow> lastErrorEvent (stateAfter pf props inputs) \<noteq> None)
   \<and> (viewState (stateAfter2 pf props inputs) = ERROR \<longrightarrow> lastErrorEvent (stateAfter2 pf props inputs) \<noteq> None)
   \<and> renderOtherView (stateAfter pf props inputs) \<noteq> Inl InvariantViolation
   \<and> renderOtherView (stateAfter2 pf props inputs) \<noteq> Inl InvariantViolation
   \<and> (\<not> isDefaultPrevented ev \<longrightarrow>
        fst (snd (onLoadingError props st ev)) = st\<lparr>viewState := ERROR, lastErrorEvent := Some (nativeEvent ev)\<rparr>)
   \<and> (isDefaultPrevented ev \<longrightarrow> fst (snd (onLoadingError props st ev)) = st)
   \<and> (viewState (fst (snd (handle pf props st i))) = ERROR \<and> viewState st \<noteq> ERROR \<longrightarrow>
        (\<exists>e. i = LoadingError e \<and> \<not> isDefaultPrevented e))
   \<and> (viewState (fst (snd (handle2 pf props st i))) = ERROR \<and> viewState st \<noteq> ERROR \<longrightarrow>
        (\<exists>e. i = LoadingError e \<and> \<not> isDefaultPrevented e))"
proof -
  have "viewState (fst (snd (handle pf props st i))) = ERROR \<and> viewState st \<noteq> ERROR \<longrightarrow>
        (\<exists>e. i = LoadingError e \<and> \<not> isDefaultPrevented e)"
    using handle_enters_ERROR [of pf props st i] by blast
  moreover have "viewState (fst (snd (handle2 pf props st i))) = ERROR \<and> viewState st \<noteq> ERROR \<longrightarrow>
        (\<exists>e. i = LoadingError e \<and> \<not> isDefaultPrevented e)"
    using handle2_enters_ERROR [of pf props st i] by blast
  moreover have "renderOtherView (stateAfter pf props inputs) \<noteq> Inl InvariantViolation"
    "renderOtherView (stateAfter2 pf props inputs) \<noteq> Inl InvariantViolation"
    by (simp_all add: renderOtherView_ok errorRecorded_stateAfter errorRecorded_stateAfter2)
  ultimately show ?thesis
    using errorRecorded_stateAfter [of pf props inputs] errorRecorded_stateAfter2 [of pf props inputs]
    by (simp add: errorRecorded_def onLoadingError_state)
qed

text \<open>
  The sequence start, error of the spec's testable properties ends in \<open>ERROR\<close> with
  the error's fields retained; a following start and finish of a whitelisted URL
  ends in \<open>IDLE\<close>; a default-prevented error changes nothing.
\<close>

theorem error_state_has_record_witness:
  "viewState (stateAfter (examplePlatform ''ios'') exampleProps
      [LoadingStart (exampleNavigation ''https://example.com/index.html''), LoadingError (exampleError False)])
     = ERROR
   \<and> lastErrorEvent (stateAfter (examplePlatform ''ios'') exampleProps
      [LoadingStart (exampleNavigation ''https://example.com/index.html''), LoadingError (exampleError False)])
     \<noteq> None
   \<and> fst (snd (onLoadingError exampleProps (initialState exampleProps) (exampleError False)))
     = (initialState exampleProps)\<lparr>viewState := ERROR, lastErrorEvent := Some (nativeEvent (exampleError False))\<rparr>
   \<and> fst (snd (onLoadingError exampleProps (initialState exampleProps) (exampleError True)))
     = initialState exampleProps"
proof -
  let ?inputs = "[LoadingStart (exampleNavigation ''https://example.com/index.html''),
    LoadingError (exampleError False)]"
  note fact = error_state_has_record [of "examplePlatform ''ios''" exampleProps ?inputs
      "exampleError False" "initialState exampleProps"]
  note fact' = error_state_has_record [of "examplePlatform ''ios''" exampleProps ?inputs
      "exampleError True" "initialState exampleProps"]
  have v: "viewState (stateAfter (examplePlatform ''ios'') exampleProps ?inputs) = ERROR"
    by (simp add: stateAfter_def onLoadingStart_def onLoadingError_def exampleError_def Let_def)
  have "lastErrorEvent (stateAfter (examplePlatform ''ios'') exampleProps ?inputs) \<noteq> None"
    using fact [THEN conjunct1] v by simp
  moreover have "fst (snd (onLoadingError exampleProps (initialState exampleProps) (exampleError False)))
     = (initialState exampleProps)\<lparr>viewState := ERROR, lastErrorEvent := Some (nativeEvent (exampleError False))\<rparr>"
    using fact [THEN conjunct2, THEN conjunct2, THEN conjunct2, THEN conjunct2, THEN conjunct1]
    by (simp add: exampleError_def)
  moreover have "fst (snd (onLoadingError exampleProps (initialState exampleProps) (exampleError True)))
     = initialState exampleProps"
    using fact' [THEN conjunct2, THEN conjunct2, THEN conjunct2, THEN conjunct2, THEN conjunct2, THEN conjunct1]
    by (simp add: exampleError_def)
  ultimately show ?thesis using v by simp
qed

lemma start_error_start_finish:
  "viewState (stateAfter (examplePlatform ''ios'') exampleProps
      [LoadingStart (exampleNavigation ''https://example.com/index.html''),
       LoadingError (exampleError False),
       LoadingStart (exampleNavigation ''https://example.com/index.html''),
       LoadingFinish (exampleNavigation ''https://example.com/index.html'')]) = IDLE"
  using passesWhitelist_example [of "''ios''"]
  by (simp add: stateAfter_def onLoadingStart_def onLoadingError_def onLoadingFinish_def
      exampleError_def exampleNavigation_def exampleEvent_def Let_def)

subsection \<open>The message channel\<close>

lemma onMessage2_eq: "onMessage2 pf props st ev = onMessage pf props st ev"
  by (simp add: onMessage2_def onMessage_def passesWhitelist2_eq)

lemma onMessage_state: "fst (snd (onMessage pf props st ev)) = st"
  by (auto simp: onMessage_def deliverMessage_def Let_def split: sum.splits option.splits)

lemma onMessage_blocked:
  "passesWhitelist pf props (url (nativeEvent ev)) \<noteq> Inr (Some True) \<Longrightarrow>
   snd (snd (onMessage pf props st ev)) = []"
  by (auto simp: onMessage_def split: sum.splits)

lemma onMessage_passed:
  "passesWhitelist pf props (url (nativeEvent ev)) = Inr (Some True) \<Longrightarrow>
   onMessage pf props st ev = deliverMessage pf props st ev"
  by (simp add: onMessage_def)

text \<open>
  C8 (as amended). For a message event, in both texts of the hook: when the
  whitelist check on its URL does not return exactly \<open>true\<close>, the host's
  \<^verbatim>\<open>onMessage\<close> is not called; the component's state is never changed, so a later
  message is handled as if this one had not arrived; and when the URL passes and
  the payload parses as JSON, then a validator that raises ends the handler with its
  exception and without a call of the host's callback, and otherwise the callback
  (when supplied) is called once, with the six metadata fields as the metadata
  validator returned them and, as \<^verbatim>\<open>data\<close>, the serialisation of what the data
  validator returned. The metadata validator is handed the six fields of the event.
\<close>

theorem onMessage_delivery:
  "(u_passesWhitelist (urlOrigin pf) (compileWhitelist (originWhitelist props)) (url (nativeEvent ev))
        \<noteq> Inr (Some True) \<longrightarrow>
      snd (snd (onMessage pf props st ev)) = [])
   \<and> fst (snd (onMessage pf props st ev)) = st
   \<and> onMessage pf props (fst (snd (onMessage pf props st ev))) later = onMessage pf props st later
   \<and> (u_passesWhitelist (urlOrigin pf) (compileWhitelist (originWhitelist props)) (url (nativeEvent ev))
          = Inr (Some True)
        \<and> jsonParse pf (data (nativeEvent ev)) = Some parsed \<longrightarrow>
      (\<forall>e. validateData props parsed = Inl e \<longrightarrow> onMessage pf props st ev = (Some e, st, []))
      \<and> (\<forall>valid e. validateData props parsed = Inr valid
            \<and> validateMeta props
                 \<lparr>url = url (nativeEvent ev), loading = loading (nativeEvent ev),
                  title = title (nativeEvent ev), canGoBack = canGoBack (nativeEvent ev),
                  canGoForward = canGoForward (nativeEvent ev),
                  lockIdentifier = lockIdentifier (nativeEvent ev)\<rparr> = Inl e \<longrightarrow>
          onMessage pf props st ev = (Some e, st, []))
      \<and> (\<forall>valid meta. validateData props parsed = Inr valid
            \<and> validateMeta props
                 \<lparr>url = url (nativeEvent ev), loading = loading (nativeEvent ev),
                  title = title (nativeEvent ev), canGoBack = canGoBack (nativeEvent ev),
                  canGoForward = canGoForward (nativeEvent ev),
                  lockIdentifier = lockIdentifier (nativeEvent ev)\<rparr> = Inr meta \<longrightarrow>
          onMessage pf props st ev =
            (None, st,
             if onMessageProp props
             then [OnMessage
                     \<lparr>url = url meta, loading = loading meta, title = title meta,
                      canGoBack = canGoBack meta, canGoForward = canGoForward meta,
                      lockIdentifier = lockIdentifier meta, data = jsonStringify pf valid\<rparr>]
             else [])))
   \<and> onMessage2 pf props st ev = onMessage pf props st ev"
proof -
  let ?passes = "u_passesWhitelist (urlOrigin pf) (compileWhitelist (originWhitelist props))
    (url (nativeEvent ev))"
  have "?passes = Inr (Some True) \<and> jsonParse pf (data (nativeEvent ev)) = Some parsed \<longrightarrow>
      (\<forall>e. validateData props parsed = Inl e \<longrightarrow> onMessage pf props st ev = (Some e, st, []))
      \<and> (\<forall>valid e. validateData props parsed = Inr valid
            \<and> validateMeta props
                 \<lparr>url = url (nativeEvent ev), loading = loading (nativeEvent ev),
                  title = title (nativeEvent ev), canGoBack = canGoBack (nativeEvent ev),
                  canGoForward = canGoForward (nativeEvent ev),
                  lockIdentifier = lockIdentifier (nativeEvent ev)\<rparr> = Inl e \<longrightarrow>
          onMessage pf props st ev = (Some e, st, []))
      \<and> (\<forall>valid meta. validateData props parsed = Inr valid
            \<and> validateMeta props
                 \<lparr>url = url (nativeEvent ev), loading = loading (nativeEvent ev),
                  title = title (nativeEvent ev), canGoBack = canGoBack (nativeEvent ev),
                  canGoForward = canGoForward (nativeEvent ev),
                  lockIdentifier = lockIdentifier (nativeEvent ev)\<rparr> = Inr meta \<longrightarrow>
          onMessage pf props st ev =
            (None, st,
             if onMessageProp props
             then [OnMessage
                     \<lparr>url = url meta, loading = loading meta, title = title meta,
                      canGoBack = canGoBack meta, canGoForward = canGoForward meta,
                      lockIdentifier = lockIdentifier meta, data = jsonStringify pf valid\<rparr>]
             else []))"
    by (auto simp: onMessage_def passesWhitelist_def deliverMessage_def extractMeta_def withData_def
        callIf_def Let_def)
  moreover have "?passes \<noteq> Inr (Some True) \<longrightarrow> snd (snd (onMessage pf props st ev)) = []"
    using onMessage_blocked [of pf props ev st] by (simp add: passesWhitelist_def)
  ultimately show ?thesis
    by (simp add: onMessage_state onMessage2_eq)
qed

lemma passesWhitelist_example_ios:
  "passesWhitelist (examplePlatform ''ios'') exampleProps
     (url (nativeEvent (exampleMessage ''https://example.com/index.html'' d))) = Inr (Some True)"
  using passesWhitelist_example [of "''ios''"] by (simp add: exampleMessage_def)

text \<open>
  A host whose data validator turns every value into \<^verbatim>\<open>false\<close> and whose metadata
  validator replaces the title receives that title and the data \<^verbatim>\<open>false\<close>, not
  what the page sent; from a URL that fails the whitelist it receives nothing; and
  a data validator that raises ends the handler with its exception.
\<close>

theorem onMessage_delivery_witness:
  "onMessage
      \<lparr>urlOrigin = exampleOrigin, jsonParse = exampleParse, jsonStringify = exampleStringify,
       platformOS = ''ios''\<rparr>
      (exampleProps\<lparr>validateMeta := (\<lambda>m. Inr (m\<lparr>title := ''checked''\<rparr>)),
                    validateData := (\<lambda>j. Inr JsonFalse)\<rparr>)
      \<lparr>viewState = IDLE, lastErrorEvent = None, startUrl = None\<rparr>
      \<lparr>nativeEvent = \<lparr>url = ''https://example.com/index.html'', loading = False, title = ''Example'',
         canGoBack = True, canGoForward = False, lockIdentifier = 7, data = ''true''\<rparr>,
       isDefaultPrevented = False\<rparr>
     = (None, \<lparr>viewState = IDLE, lastErrorEvent = None, startUrl = None\<rparr>,
        [OnMessage \<lparr>url = ''https://example.com/index.html'', loading = False, title = ''checked'',
           canGoBack = True, canGoForward = False, lockIdentifier = 7, data = ''false''\<rparr>])
   \<and> snd (onMessage
      \<lparr>urlOrigin = exampleOrigin, jsonParse = exampleParse, jsonStringify = exampleStringify,
       platformOS = ''ios''\<rparr>
      exampleProps
      \<lparr>viewState = IDLE, lastErrorEvent = None, startUrl = None\<rparr>
      \<lparr>nativeEvent = \<lparr>url = ''http://evil.test/'', loading = False, title = ''Example'',
         canGoBack = True, canGoForward = False, lockIdentifier = 7, data = ''true''\<rparr>,
       isDefaultPrevented = False\<rparr>)
     = (\<lparr>viewState = IDLE, lastErrorEvent = None, startUrl = None\<rparr>, [])
   \<and> onMessage
      \<lparr>urlOrigin = exampleOrigin, jsonParse = exampleParse, jsonStringify = exampleStringify,
       platformOS = ''ios''\<rparr>
      (exampleProps\<lparr>validateData := (\<lambda>j. Inl (Rejected ''no''))\<rparr>)
      \<lparr>viewState = IDLE, lastErrorEvent = None, startUrl = None\<rparr>
      \<lparr>nativeEvent = \<lparr>url = ''https://example.com/index.html'', loading = False, title = ''Example'',
         canGoBack = True, canGoForward = False, lockIdentifier = 7, data = ''true''\<rparr>,
       isDefaultPrevented = False\<rparr>
     = (Some (Rejected ''no''), \<lparr>viewState = IDLE, lastErrorEvent = None, startUrl = None\<rparr>, [])"
proof -
  let ?pf = "\<lparr>urlOrigin = exampleOrigin, jsonParse = exampleParse,
    jsonStringify = exampleStringify, platformOS = ''ios''\<rparr>"
  let ?st = "\<lparr>viewState = IDLE, lastErrorEvent = None, startUrl = None\<rparr>"
  let ?ev = "\<lambda>u. \<lparr>nativeEvent = \<lparr>url = u, loading = False, title = ''Example'',
         canGoBack = True, canGoForward = False, lockIdentifier = 7, data = ''true''\<rparr>,
       isDefaultPrevented = False\<rparr>"
  let ?rewriting = "exampleProps\<lparr>validateMeta := (\<lambda>m. Inr (m\<lparr>title := ''checked''\<rparr>)),
                    validateData := (\<lambda>j. Inr JsonFalse)\<rparr>"
  let ?strict = "exampleProps\<lparr>validateData := (\<lambda>j. Inl (Rejected ''no''))\<rparr>"
  have props: "originWhitelist exampleProps = [''https://*'']" "onMessageProp exampleProps"
    by (simp_all add: exampleProps_def defaultOriginWhitelist_def)
  have parsed: "exampleParse ''true'' = Some JsonTrue"
    by (simp add: exampleParse_def)
  have "onMessage ?pf ?rewriting ?st (?ev ''https://example.com/index.html'')
     = (None, ?st,
        [OnMessage \<lparr>url = ''https://example.com/index.html'', loading = False, title = ''checked'',
           canGoBack = True, canGoForward = False, lockIdentifier = 7, data = ''false''\<rparr>])"
    using onMessage_delivery [of ?pf ?rewriting "?ev ''https://example.com/index.html''" ?st _ JsonTrue,
        THEN conjunct2, THEN conjunct2, THEN conjunct2, THEN conjunct1]
      props parsed u_passesWhitelist_example
    by simp
  moreover have "snd (onMessage ?pf exampleProps ?st (?ev ''http://evil.test/'')) = (?st, [])"
    using onMessage_delivery [of ?pf exampleProps "?ev ''http://evil.test/''" ?st, THEN conjunct1]
      onMessage_delivery [of ?pf exampleProps "?ev ''http://evil.test/''" ?st,
        THEN conjunct2, THEN conjunct1]
      props u_passesWhitelist_example
    by (simp add: prod_eq_iff)
  moreover have "onMessage ?pf ?strict ?st (?ev ''https://example.com/index.html'')
      = (Some (Rejected ''no''), ?st, [])"
    using onMessage_delivery [of ?pf ?strict "?ev ''https://example.com/index.html''" ?st _ JsonTrue,
        THEN conjunct2, THEN conjunct2, THEN conjunct2, THEN conjunct1]
      props parsed u_passesWhitelist_example
    by simp
  ultimately show ?thesis by simp
qed

text \<open>
  The claim as stated fails on a payload that is not JSON: the URL passes the
  whitelist, neither validator raises (the data validator is not reached), and the
  host's callback, although supplied, receives nothing.
\<close>

theorem onMessage_not_json_not_delivered:
  "passesWhitelist (examplePlatform ''ios'') exampleProps ''https://example.com/index.html'' = Inr (Some True)
   \<and> validateData exampleProps = Inr \<and> validateMeta exampleProps = Inr
   \<and> onMessageProp exampleProps
   \<and> snd (snd (onMessage (examplePlatform ''ios'') exampleProps (initialState exampleProps)
        (exampleMessage ''https://example.com/index.html'' ''{oops''))) = []"
proof -
  have "snd (snd (onMessage (examplePlatform ''ios'') exampleProps (initialState exampleProps)
        (exampleMessage ''https://example.com/index.html'' ''{oops''))) = []"
    using passesWhitelist_example_ios [of "''{oops''"]
    by (simp add: onMessage_passed deliverMessage_def)
      (simp add: examplePlatform_def exampleMessage_def exampleParse_def)
  then show ?thesis
    using passesWhitelist_example [of "''ios''"] by (simp add: exampleProps_def)
qed

text \<open>
  C9 (as amended). When the URL of a message passes the whitelist and the payload
  is not valid JSON, the message is dropped: the host's \<^verbatim>\<open>onMessage\<close> is not called
  and the component's state is unchanged. The \<open>SyntaxError\<close> of \<^verbatim>\<open>JSON.parse\<close> is
  not caught: it leaves the handler. This holds for both texts of the hook.
\<close>

theorem onMessage_not_json:
  "passesWhitelist pf props (url (nativeEvent ev)) = Inr (Some True)
     \<and> jsonParse pf (data (nativeEvent ev)) = None \<longrightarrow>
   onMessage pf props st ev = (Some SyntaxError, st, [])
   \<and> onMessage2 pf props st ev = (Some SyntaxError, st, [])"
  by (simp add: onMessage2_eq onMessage_passed deliverMessage_def)

theorem onMessage_not_json_witness:
  "onMessage (examplePlatform ''android'') exampleProps (initialState exampleProps)
      (exampleMessage ''https://example.com/index.html'' ''not json'')
     = (Some SyntaxError, initialState exampleProps, [])
   \<and> onMessage2 (examplePlatform ''android'') exampleProps (initialState exampleProps)
      (exampleMessage ''https://example.com/index.html'' ''not json'')
     = (Some SyntaxError, initialState exampleProps, [])"
proof -
  have "jsonParse (examplePlatform ''android'')
      (data (nativeEvent (exampleMessage ''https://example.com/index.html'' ''not json''))) = None"
    by (simp add: examplePlatform_def exampleMessage_def exampleParse_def)
  moreover have "passesWhitelist (examplePlatform ''android'') exampleProps
     (url (nativeEvent (exampleMessage ''https://example.com/index.html'' ''not json''))) = Inr (Some True)"
    using passesWhitelist_example [of "''android''"] by (simp add: exampleMessage_def)
  ultimately show ?thesis
    using onMessage_not_json [of "examplePlatform ''android''" exampleProps
        "exampleMessage ''https://example.com/index.html'' ''not json''" "initialState exampleProps"]
    by simp
qed

text \<open>The exception of the claim's case does leave the handler.\<close>

theorem onMessage_not_json_raises:
  "fst (onMessage (examplePlatform ''ios'') exampleProps (initialState exampleProps)
      (exampleMessage ''https://example.com/index.html'' ''not json'')) = Some SyntaxError"
  using passesWhitelist_example_ios [of "''not json''"]
  by (simp add: onMessage_passed deliverMessage_def)
    (simp add: examplePlatform_def exampleMessage_def exampleParse_def)

subsection \<open>The version gate\<close>

lemma versionPasses_empty_version: "\<not> versionPasses num [] minimum"
  by (simp add: versionPasses.simps)

lemma includesStr_nonempty: "sep \<noteq> [] \<Longrightarrow> includesStr sep s \<Longrightarrow> s \<noteq> []"
  by (cases s) auto

lemma splitFrom_nonempty: "splitFrom sep cur s \<noteq> []"
  by (induction sep cur s rule: splitFrom.induct) auto

lemma splitFrom_two_pieces:
  "sep \<noteq> [] \<Longrightarrow> includesStr sep s \<Longrightarrow> 2 \<le> length (splitFrom sep cur s)"
proof (induction sep cur s rule: splitFrom.induct)
  case (1 sep cur)
  then show ?case by simp
next
  case (2 sep cur c cs)
  show ?case
  proof (cases "startsWith sep (c # cs)")
    case True
    have "1 \<le> length (splitFrom sep [] (drop (length sep) (c # cs)))"
      using splitFrom_nonempty [of sep "[]" "drop (length sep) (c # cs)"]
      by (cases "splitFrom sep [] (drop (length sep) (c # cs))") auto
    with True 2 show ?thesis by simp
  next
    case False
    with 2 show ?thesis by auto
  qed
qed

lemma split_two_pieces:
  assumes "sep \<noteq> []" "includesStr sep s"
  shows "\<exists>a b rest. split sep s = a # b # rest"
proof -
  have "2 \<le> length (split sep s)"
    using assms by (simp add: split_def splitFrom_two_pieces)
  then show ?thesis
    by (cases "split sep s"; cases "tl (split sep s)") auto
qed

lemma versionPasses_range_unfold:
  assumes "\<not> includesStr '', '' minimum" "includesStr '' <'' minimum"
    "split '' <'' minimum = mn # mx # rest"
  shows "versionPasses num v minimum =
     (rest = [] \<and> versionPasses num v mn \<and> \<not> versionPasses num v mx \<and> versionPasses num mx v)"
proof (cases "v = []")
  case True
  then show ?thesis by (simp add: versionPasses_empty_version)
next
  case False
  moreover have "minimum \<noteq> []"
    using assms includesStr_nonempty [of "'' <''" minimum] by simp
  ultimately show ?thesis
    using assms by (subst versionPasses.simps) auto
qed

lemma versionRegexFrom_chars:
  "versionRegexFrom digitSeen s \<Longrightarrow> c \<in> set s \<Longrightarrow> isDigit c \<or> c = CHR ''.''"
  by (induction s arbitrary: digitSeen) (auto split: if_splits)

lemma versionRegex_chars: "versionRegex s \<Longrightarrow> c \<in> set s \<Longrightarrow> isDigit c \<or> c = CHR ''.''"
  unfolding versionRegex_def by (rule versionRegexFrom_chars)

lemma versionRegex_no_space: "versionRegex s \<Longrightarrow> CHR '' '' \<notin> set s"
  using versionRegex_chars [of s "CHR '' ''"] by (auto simp: isDigit_def)

lemma versionRegex_no_comma: "versionRegex s \<Longrightarrow> CHR '','' \<notin> set s"
  using versionRegex_chars [of s "CHR '',''"] by (auto simp: isDigit_def)

lemma versionRegex_nonempty: "versionRegex s \<Longrightarrow> s \<noteq> []"
  by (auto simp: versionRegex_def)

lemma startsWith_hd: "startsWith (p # ps) s \<Longrightarrow> p \<in> set s"
  by (cases s) auto

lemma includesStr_hd: "includesStr (p # ps) s \<Longrightarrow> p \<in> set s"
  by (induction s) (auto dest: startsWith_hd)

lemma startsWith_append: "startsWith sep (sep @ t)"
  by (induction sep) auto

lemma includesStr_append: "includesStr sep (a @ sep @ b)"
proof (induction a)
  case Nil
  show ?case by (cases "sep @ b") (use startsWith_append [of sep b] in auto)
next
  case (Cons c a)
  then show ?case by simp
qed

lemma splitFrom_skip:
  "p \<notin> set a \<Longrightarrow> splitFrom (p # ps) cur (a @ t) = splitFrom (p # ps) (rev a @ cur) t"
proof (induction a arbitrary: cur)
  case Nil
  show ?case by simp
next
  case (Cons c a)
  then have "\<not> startsWith (p # ps) (c # a @ t)" by auto
  with Cons show ?case by simp
qed

lemma split_no_separator: "p \<notin> set a \<Longrightarrow> split (p # ps) a = [a]"
  using splitFrom_skip [of p a ps "[]" "[]"] by (simp add: split_def)

lemma split_one_separator:
  assumes "p \<notin> set a" "p \<notin> set b"
  shows "split (p # ps) (a @ (p # ps) @ b) = [a, b]"
proof -
  have "split (p # ps) (a @ (p # ps) @ b) = splitFrom (p # ps) (rev a) ((p # ps) @ b)"
    using splitFrom_skip [OF assms(1), of ps "[]" "(p # ps) @ b"] by (simp add: split_def)
  also have "\<dots> = a # splitFrom (p # ps) [] b"
    using startsWith_append [of "p # ps" b] by simp
  also have "splitFrom (p # ps) [] b = [b]"
    using split_no_separator [OF assms(2), of ps] by (simp add: split_def)
  finally show ?thesis .
qed

lemma versionPasses_dotted:
  assumes "versionRegex minimum"
  shows "versionPasses num v minimum =
     (versionRegex v \<and>
      compareParts (map num (split ''.'' v)) (map num (split ''.'' minimum))
        (max (length (split ''.'' v)) (length (split ''.'' minimum))) 0)"
proof (cases "v = []")
  case True
  then show ?thesis by (simp add: versionPasses_empty_version versionRegex_def)
next
  case False
  have "\<not> includesStr '', '' minimum"
    using includesStr_hd [of "CHR '',''" "'' ''" minimum] versionRegex_no_comma [OF assms] by auto
  moreover have "\<not> includesStr '' <'' minimum"
    using includesStr_hd [of "CHR '' ''" "''<''" minimum] versionRegex_no_space [OF assms] by auto
  ultimately show ?thesis
    using False versionRegex_nonempty [OF assms] assms
    by (subst versionPasses.simps) (simp add: Let_def)
qed

lemma compareParts_drop:
  "len = max (length vs) (length ms) \<Longrightarrow>
   compareParts vs ms len i = atLeastVersion (drop i vs) (drop i ms)"
proof (induction vs ms len i rule: compareParts.induct)
  case (1 vs ms len i)
  show ?case
  proof (cases "i < len")
    case False
    with 1(2) show ?thesis by (subst compareParts.simps) simp
  next
    case True
    let ?ver = "if i < length vs then vs ! i else 0"
    let ?mn = "if i < length ms then ms ! i else 0"
    have step: "compareParts vs ms len i =
        (if ?ver > ?mn then True else if ?ver < ?mn then False else compareParts vs ms len (i + 1))"
      using True by (subst compareParts.simps) (simp add: Let_def)
    have IH: "\<not> ?ver > ?mn \<Longrightarrow> \<not> ?ver < ?mn \<Longrightarrow>
        compareParts vs ms len (i + 1) = atLeastVersion (drop (i + 1) vs) (drop (i + 1) ms)"
      using 1(1) [OF True refl refl] 1(2) by simp
    have spec: "atLeastVersion (drop i vs) (drop i ms) =
        (if ?ver > ?mn then True else if ?ver < ?mn then False
         else atLeastVersion (drop (i + 1) vs) (drop (i + 1) ms))"
    proof (cases "i < length vs"; cases "i < length ms")
      assume "i < length vs" "i < length ms"
      then show ?thesis
        by (simp add: Cons_nth_drop_Suc [symmetric])
    next
      assume a: "i < length vs" "\<not> i < length ms"
      then show ?thesis
        by (simp add: Cons_nth_drop_Suc [symmetric])
    next
      assume a: "\<not> i < length vs" "i < length ms"
      then show ?thesis
        by (simp add: Cons_nth_drop_Suc [symmetric])
    next
      assume "\<not> i < length vs" "\<not> i < length ms"
      with True 1(2) show ?thesis by simp
    qed
    show ?thesis
      unfolding step spec using IH by simp
  qed
qed

lemma compareParts_atLeastVersion:
  "compareParts vs ms (max (length vs) (length ms)) 0 = atLeastVersion vs ms"
  using compareParts_drop [of "max (length vs) (length ms)" vs ms 0] by simp

lemma atLeastVersion_total: "\<not> atLeastVersion a b \<Longrightarrow> atLeastVersion b a"
  by (induction a b rule: atLeastVersion.induct) (auto split: if_splits)

lemma versionPasses_dotted_spec:
  assumes "versionRegex minimum"
  shows "versionPasses num v minimum =
     (versionRegex v \<and> atLeastVersion (map num (split ''.'' v)) (map num (split ''.'' minimum)))"
  using versionPasses_dotted [OF assms, of num v]
    compareParts_atLeastVersion [of "map num (split ''.'' v)" "map num (split ''.'' minimum)"]
  by simp

text \<open>A dotted version passes itself as the minimum: equality satisfies the minimum.\<close>

lemma versionPasses_same: "versionRegex v \<Longrightarrow> versionPasses num v v"
  using versionPasses_dotted_spec [of v num v]
    atLeastVersion_total [of "map num (split ''.'' v)" "map num (split ''.'' v)"]
  by blast

text \<open>
  C3. When the minimum is a single range (it contains \<^verbatim>\<open>' <'\<close> and no \<^verbatim>\<open>', '\<close>),
  the split on \<^verbatim>\<open>' <'\<close> has a first piece \<open>mn\<close> and a second piece \<open>mx\<close>; with a
  further piece \<open>versionPasses\<close> returns \<open>false\<close>, and otherwise it returns \<open>true\<close>
  if and only if the version passes \<open>mn\<close>, does not pass \<open>mx\<close>, and \<open>mx\<close> passes the
  version as its minimum. For dotted \<open>mn\<close> and \<open>mx\<close> the third condition follows
  from the second, and the result is: the version is dotted, at least \<open>mn\<close> and
  not at least \<open>mx\<close>, in the component-wise order of the spec.
\<close>

theorem versionPasses_range:
  "(\<not> includesStr '', '' minimum \<and> includesStr '' <'' minimum \<longrightarrow>
      (\<exists>mn mx rest. split '' <'' minimum = mn # mx # rest
         \<and> (rest \<noteq> [] \<longrightarrow> \<not> versionPasses num v minimum)
         \<and> (rest = [] \<longrightarrow>
              versionPasses num v minimum =
                (versionPasses num v mn \<and> \<not> versionPasses num v mx \<and> versionPasses num mx v))))
   \<and> (versionRegex lo \<and> versionRegex hi \<longrightarrow>
      versionPasses num v (lo @ '' <'' @ hi) = (versionPasses num v lo \<and> \<not> versionPasses num v hi)
      \<and> versionPasses num v (lo @ '' <'' @ hi) =
          (versionRegex v
           \<and> atLeastVersion (map num (split ''.'' v)) (map num (split ''.'' lo))
           \<and> \<not> atLeastVersion (map num (split ''.'' v)) (map num (split ''.'' hi))))"
proof -
  have range: "\<exists>mn mx rest. split '' <'' minimum = mn # mx # rest
         \<and> (rest \<noteq> [] \<longrightarrow> \<not> versionPasses num v minimum)
         \<and> (rest = [] \<longrightarrow>
              versionPasses num v minimum =
                (versionPasses num v mn \<and> \<not> versionPasses num v mx \<and> versionPasses num mx v))"
    if no_list: "\<not> includesStr '', '' minimum" and is_range: "includesStr '' <'' minimum"
  proof -
    obtain mn mx rest where pieces: "split '' <'' minimum = mn # mx # rest"
      using split_two_pieces [of "'' <''" minimum] is_range by auto
    show ?thesis
      using versionPasses_range_unfold [OF no_list is_range pieces, of num v] pieces by auto
  qed
  have dotted: "versionPasses num v (lo @ '' <'' @ hi) = (versionPasses num v lo \<and> \<not> versionPasses num v hi)
      \<and> versionPasses num v (lo @ '' <'' @ hi) =
          (versionRegex v
           \<and> atLeastVersion (map num (split ''.'' v)) (map num (split ''.'' lo))
           \<and> \<not> atLeastVersion (map num (split ''.'' v)) (map num (split ''.'' hi)))"
    if lo: "versionRegex lo" and hi: "versionRegex hi"
  proof -
    let ?m = "lo @ '' <'' @ hi"
    have "CHR '','' \<notin> set ?m"
      using versionRegex_no_comma [OF lo] versionRegex_no_comma [OF hi] by simp
    then have no_list: "\<not> includesStr '', '' ?m"
      using includesStr_hd [of "CHR '',''" "'' ''" ?m] by blast
    have is_range: "includesStr '' <'' ?m"
      by (rule includesStr_append)
    have pieces: "split '' <'' ?m = [lo, hi]"
      using split_one_separator [of "CHR '' ''" lo hi "''<''"]
        versionRegex_no_space [OF lo] versionRegex_no_space [OF hi] by simp
    have unfolded: "versionPasses num v ?m =
        (versionPasses num v lo \<and> \<not> versionPasses num v hi \<and> versionPasses num hi v)"
      using versionPasses_range_unfold [OF no_list is_range pieces, of num v] by simp
    have third: "versionPasses num hi v"
      if "versionPasses num v lo" "\<not> versionPasses num v hi"
    proof -
      from that(1) have v: "versionRegex v"
        using versionPasses_dotted_spec [OF lo, of num v] by simp
      with that(2) have "\<not> atLeastVersion (map num (split ''.'' v)) (map num (split ''.'' hi))"
        using versionPasses_dotted_spec [OF hi, of num v] by simp
      then have "atLeastVersion (map num (split ''.'' hi)) (map num (split ''.'' v))"
        by (rule atLeastVersion_total)
      then show ?thesis
        using versionPasses_dotted_spec [OF v, of num hi] hi by simp
    qed
    have first: "versionPasses num v ?m = (versionPasses num v lo \<and> \<not> versionPasses num v hi)"
      using unfolded third by blast
    then show ?thesis
      using versionPasses_dotted_spec [OF lo, of num v] versionPasses_dotted_spec [OF hi, of num v]
      by auto
  qed
  show ?thesis
    using range dotted by blast
qed

lemma versionPasses_12_9: "versionPasses decimalValue ''12.9'' ''12.5.6''"
  "\<not> versionPasses decimalValue ''12.9'' ''13''" "versionPasses decimalValue ''13'' ''12.9''"
  by code_simp+

theorem versionPasses_range_witness:
  "versionPasses decimalValue ''12.9'' ''12.5.6 <13''
   \<and> \<not> versionPasses decimalValue ''12.9'' ''12.5.6 <13 <14''
   \<and> \<not> versionPasses decimalValue ''13.0'' (''12.5.6'' @ '' <'' @ ''13'')"
proof -
  note fact = versionPasses_range [of "''12.5.6 <13''" decimalValue "''12.9''" "''12.5.6''" "''13''"]
  note more = versionPasses_range [of "''12.5.6 <13 <14''" decimalValue "''12.9''" "''12.5.6''" "''13''"]
  note upper = versionPasses_range [of "''12.5.6 <13''" decimalValue "''13.0''" "''12.5.6''" "''13''"]
  have s1: "split '' <'' ''12.5.6 <13'' = [''12.5.6'', ''13'']"
    by (simp add: split_def)
  have s2: "split '' <'' ''12.5.6 <13 <14'' = [''12.5.6'', ''13'', ''14'']"
    by (simp add: split_def)
  have dotted: "versionRegex ''12.5.6''" "versionRegex ''13''"
    by (simp_all add: versionRegex_def isDigit_def)
  have "versionPasses decimalValue ''12.9'' ''12.5.6 <13''"
    using fact [THEN conjunct1] versionPasses_12_9 by (simp add: s1)
  moreover have "\<not> versionPasses decimalValue ''12.9'' ''12.5.6 <13 <14''"
    using more [THEN conjunct1] by (simp add: s2)
  moreover have "versionPasses decimalValue ''13.0'' ''13''"
    by code_simp
  then have "\<not> versionPasses decimalValue ''13.0'' (''12.5.6'' @ '' <'' @ ''13'')"
    using upper [THEN conjunct2] dotted by blast
  ultimately show ?thesis by blast
qed

subsection \<open>Disjunctions of clauses\<close>

lemma startsWith_iff: "startsWith sep s \<longleftrightarrow> (\<exists>t. s = sep @ t)"
proof (induction sep arbitrary: s)
  case Nil
  show ?case by simp
next
  case (Cons p ps)
  show ?case by (cases s) (auto simp: Cons)
qed

lemma includesStr_iff: "includesStr sep s \<longleftrightarrow> (\<exists>a b. s = a @ sep @ b)"
proof (induction s)
  case Nil
  show ?case by auto
next
  case (Cons c cs)
  show ?case
  proof
    assume "includesStr sep (c # cs)"
    then consider "startsWith sep (c # cs)" | "includesStr sep cs" by auto
    then show "\<exists>a b. c # cs = a @ sep @ b"
    proof cases
      case 1
      then obtain t where "c # cs = sep @ t" using startsWith_iff by blast
      then have "c # cs = [] @ sep @ t" by simp
      then show ?thesis by blast
    next
      case 2
      then obtain a b where "cs = a @ sep @ b" using Cons by blast
      then have "c # cs = (c # a) @ sep @ b" by simp
      then show ?thesis by blast
    qed
  next
    assume "\<exists>a b. c # cs = a @ sep @ b"
    then obtain a b where ab: "c # cs = a @ sep @ b" by blast
    show "includesStr sep (c # cs)"
    proof (cases a)
      case Nil
      with ab have "startsWith sep (c # cs)" using startsWith_iff by auto
      then show ?thesis by simp
    next
      case (Cons d a')
      with ab have "cs = a' @ sep @ b" by simp
      then have "includesStr sep cs" using Cons.IH by blast
      then show ?thesis by simp
    qed
  qed
qed

text \<open>A piece of a split is a part of the string, and the separator does not occur in it.\<close>

lemma splitFrom_piece_part:
  "x \<in> set (splitFrom sep cur s) \<Longrightarrow> \<exists>a b. rev cur @ s = a @ x @ b"
proof (induction sep cur s rule: splitFrom.induct)
  case (1 sep cur)
  then have "rev cur @ [] = [] @ x @ []" by simp
  then show ?case by blast
next
  case (2 sep cur c cs)
  show ?case
  proof (cases "sep \<noteq> [] \<and> startsWith sep (c # cs)")
    case True
    with 2(3) consider "x = rev cur" | "x \<in> set (splitFrom sep [] (drop (length sep) (c # cs)))"
      by auto
    then show ?thesis
    proof cases
      case 1
      then have "rev cur @ c # cs = [] @ x @ (c # cs)" by simp
      then show ?thesis by blast
    next
      case 2
      then obtain a b where "drop (length sep) (c # cs) = a @ x @ b"
        using "2.IH"(1) [OF True] by auto
      then have "rev cur @ c # cs = (rev cur @ take (length sep) (c # cs) @ a) @ x @ b"
        by (metis append.assoc append_take_drop_id)
      then show ?thesis by blast
    qed
  next
    case False
    with 2(3) have "x \<in> set (splitFrom sep (c # cur) cs)" by auto
    then show ?thesis using "2.IH"(2) [OF False] by simp
  qed
qed

lemma split_piece_includes:
  assumes "x \<in> set (split sep s)" "includesStr t x"
  shows "includesStr t s"
proof -
  obtain a b where "s = a @ x @ b"
    using splitFrom_piece_part [of x sep "[]" s] assms(1) by (auto simp: split_def)
  moreover obtain c d where "x = c @ t @ d"
    using assms(2) includesStr_iff by blast
  ultimately have "s = (a @ c) @ t @ (d @ b)" by simp
  then show ?thesis using includesStr_iff by blast
qed

lemma splitFrom_piece_no_sep:
  "sep \<noteq> [] \<Longrightarrow> x \<in> set (splitFrom sep cur s) \<Longrightarrow>
    (\<And>a b. rev cur @ s = a @ sep @ b \<Longrightarrow> length cur \<le> length a) \<Longrightarrow> \<not> includesStr sep x"
proof (induction sep cur s rule: splitFrom.induct)
  case (1 sep cur)
  show ?case
  proof
    assume "includesStr sep x"
    then obtain a b where ab: "x = a @ sep @ b" using includesStr_iff by blast
    from 1(2) have x: "x = rev cur" by simp
    with ab have "rev cur @ [] = a @ sep @ b" by simp
    then have "length cur \<le> length a" by (rule 1(3))
    moreover have "length cur = length a + length sep + length b"
      using ab x by (metis length_append length_rev add.assoc)
    ultimately show False using 1(1) by simp
  qed
next
  case (2 sep cur c cs)
  show ?case
  proof (cases "startsWith sep (c # cs)")
    case True
    with 2(3,4) consider "x = rev cur" | "x \<in> set (splitFrom sep [] (drop (length sep) (c # cs)))"
      by auto
    then show ?thesis
    proof cases
      case 1
      show ?thesis
      proof
        assume "includesStr sep x"
        then obtain a b where ab: "x = a @ sep @ b" using includesStr_iff by blast
        with 1 have "rev cur @ c # cs = a @ sep @ (b @ c # cs)" by simp
        then have "length cur \<le> length a" by (rule 2(5))
        moreover have "length cur = length a + length sep + length b"
          using ab 1 by (metis length_append length_rev add.assoc)
        ultimately show False using 2(3) by simp
      qed
    next
      case 2
      have "\<not> includesStr sep x"
      proof (rule "2.IH"(1))
        show "sep \<noteq> [] \<and> startsWith sep (c # cs)" using True "2.prems"(1) by simp
        show "sep \<noteq> []" by (rule "2.prems"(1))
        show "x \<in> set (splitFrom sep [] (drop (length sep) (c # cs)))" by (rule 2)
        show "length [] \<le> length a" for a :: string by simp
      qed
      then show ?thesis .
    qed
  next
    case False
    with "2.prems"(2) have member: "x \<in> set (splitFrom sep (c # cur) cs)" by auto
    show ?thesis
    proof (rule "2.IH"(2))
      show "\<not> (sep \<noteq> [] \<and> startsWith sep (c # cs))" using False by simp
      show "sep \<noteq> []" by (rule "2.prems"(1))
      show "x \<in> set (splitFrom sep (c # cur) cs)" by (rule member)
      fix a b
      assume eq: "rev (c # cur) @ cs = a @ sep @ b"
      then have eq': "rev cur @ c # cs = a @ sep @ b" by simp
      then have le: "length cur \<le> length a" by (rule "2.prems"(3))
      have "length a \<noteq> length cur"
      proof
        assume "length a = length cur"
        with eq' have "c # cs = sep @ b"
          by (metis append_eq_append_conv length_rev)
        then have "startsWith sep (c # cs)" using startsWith_iff by blast
        with False show False ..
      qed
      with le show "length (c # cur) \<le> length a" by simp
    qed
  qed
qed

lemma split_piece_no_sep: "sep \<noteq> [] \<Longrightarrow> x \<in> set (split sep s) \<Longrightarrow> \<not> includesStr sep x"
  using splitFrom_piece_no_sep [of sep x "[]" s] by (simp add: split_def)

lemma splitFrom_none: "\<not> includesStr sep s \<Longrightarrow> splitFrom sep cur s = [rev cur @ s]"
  by (induction s arbitrary: cur) auto

lemma split_none: "\<not> includesStr sep s \<Longrightarrow> split sep s = [s]"
  by (simp add: split_def splitFrom_none)

lemma versionRegex_plain:
  assumes "versionRegex s"
  shows "\<not> includesStr '', '' s" "\<not> includesStr '' <'' s"
  using includesStr_hd [of "CHR '',''" "'' ''" s] versionRegex_no_comma [OF assms]
    includesStr_hd [of "CHR '' ''" "''<''" s] versionRegex_no_space [OF assms]
  by auto

lemma versionPasses_plain:
  assumes "\<not> includesStr '', '' m" "\<not> includesStr '' <'' m"
  shows "versionPasses num v m = satisfiesBound num v m"
proof (cases "v = [] \<or> m = []")
  case True
  then show ?thesis
    by (auto simp: versionPasses_empty_version satisfiesBound_def versionRegex_def versionPasses.simps)
next
  case False
  then show ?thesis
    using assms
    by (subst versionPasses.simps)
      (auto simp: Let_def satisfiesBound_def compareParts_atLeastVersion [symmetric])
qed

lemma satisfiesBound_dotted: "satisfiesBound num v m \<Longrightarrow> versionRegex v \<and> versionRegex m"
  by (simp add: satisfiesBound_def)

lemma versionPasses_clause:
  assumes "\<not> includesStr '', '' x"
  shows "versionPasses num v x = satisfiesClause num v x"
proof (cases "includesStr '' <'' x")
  case False
  with assms show ?thesis
    by (simp add: versionPasses_plain satisfiesClause_def split_none)
next
  case True
  then obtain mn mx rest where pieces: "split '' <'' x = mn # mx # rest"
    using split_two_pieces [of "'' <''" x] by auto
  have plain: "\<not> includesStr '', '' y \<and> \<not> includesStr '' <'' y" if "y \<in> set (split '' <'' x)" for y
    using that assms split_piece_includes [of y "'' <''" x "'', ''"] split_piece_no_sep [of "'' <''" y x]
    by auto
  have mn: "versionPasses num v mn = satisfiesBound num v mn"
    using plain [of mn] pieces by (simp add: versionPasses_plain)
  have mx: "versionPasses num v mx = satisfiesBound num v mx"
    using plain [of mx] pieces by (simp add: versionPasses_plain)
  have swapped: "versionPasses num mx v = satisfiesBound num mx v" if "versionRegex v"
    using versionRegex_plain [OF that] by (simp add: versionPasses_plain)
  have "versionPasses num v x =
      (rest = [] \<and> versionPasses num v mn \<and> \<not> versionPasses num v mx \<and> versionPasses num mx v)"
    by (rule versionPasses_range_unfold [OF assms True pieces])
  also have "\<dots> = (rest = [] \<and> satisfiesBound num v mn \<and> \<not> satisfiesBound num v mx
      \<and> satisfiesBound num mx v)"
    using mn mx swapped satisfiesBound_dotted [of num v mn] by auto
  also have "\<dots> = satisfiesClause num v x"
    by (cases rest) (simp_all add: satisfiesClause_def pieces)
  finally show ?thesis .
qed

text \<open>
  C4 (as amended). When the minimum is a comma-separated disjunction: if a clause
  other than the last does not contain \<^verbatim>\<open>' <'\<close>, \<open>versionPasses\<close> returns \<open>false\<close>;
  otherwise it returns \<open>true\<close> if and only if the version satisfies at least one
  clause, where a single dotted version is satisfied by the dotted versions that
  are at least it, a range \<^verbatim>\<open>min <max\<close> as the spec computes it, and a clause with
  more than one \<^verbatim>\<open>' <'\<close> by no version.
\<close>

theorem versionPasses_disjunction:
  assumes "includesStr '', '' minimum"
  shows "versionPasses num v minimum =
     (list_all (includesStr '' <'') (butlast (split '', '' minimum))
      \<and> list_ex (satisfiesClause num v) (split '', '' minimum))"
proof -
  have clause: "versionPasses num v x = satisfiesClause num v x" if "x \<in> set (split '', '' minimum)" for x
    using split_piece_no_sep [of "'', ''" x minimum] that by (simp add: versionPasses_clause)
  then have same: "list_ex (versionPasses num v) (split '', '' minimum)
      = list_ex (satisfiesClause num v) (split '', '' minimum)"
    by (simp add: list_ex_iff)
  show ?thesis
  proof (cases "v = []")
    case True
    then show ?thesis
      unfolding same [symmetric] by (simp add: versionPasses_empty_version list_ex_iff)
  next
    case False
    moreover have "minimum \<noteq> []"
      using assms includesStr_nonempty [of "'', ''" minimum] by simp
    ultimately have "versionPasses num v minimum =
       (list_all (includesStr '' <'') (butlast (split '', '' minimum))
        \<and> list_ex (versionPasses num v) (split '', '' minimum))"
      using assms by (subst versionPasses.simps) (simp add: Let_def)
    then show ?thesis unfolding same .
  qed
qed

text \<open>
  The hard minimum of the iOS component, at the boundaries of its clauses: 12.5.6
  and 13.6.1 pass, 12.5.5 and 13.0 do not, and everything from 15.7.1 on passes.
  With a first clause that has no upper bound nothing passes.
\<close>

theorem versionPasses_disjunction_witness:
  "split '', '' ''12.5.6 <13, 13.6.1 <14, 14.8.1 <15, 15.7.1''
     = [''12.5.6 <13'', ''13.6.1 <14'', ''14.8.1 <15'', ''15.7.1'']
   \<and> versionPasses decimalValue ''12.5.6'' ''12.5.6 <13, 13.6.1 <14, 14.8.1 <15, 15.7.1''
   \<and> \<not> versionPasses decimalValue ''12.5.5'' ''12.5.6 <13, 13.6.1 <14, 14.8.1 <15, 15.7.1''
   \<and> \<not> versionPasses decimalValue ''13.0'' ''12.5.6 <13, 13.6.1 <14, 14.8.1 <15, 15.7.1''
   \<and> versionPasses decimalValue ''13.6.1'' ''12.5.6 <13, 13.6.1 <14, 14.8.1 <15, 15.7.1''
   \<and> versionPasses decimalValue ''16.2'' ''12.5.6 <13, 13.6.1 <14, 14.8.1 <15, 15.7.1''
   \<and> \<not> versionPasses decimalValue ''13.7'' ''13.6.1, 14.8.1 <15''"
proof -
  let ?hard = "''12.5.6 <13, 13.6.1 <14, 14.8.1 <15, 15.7.1''"
  have s1: "split '', '' ?hard = [''12.5.6 <13'', ''13.6.1 <14'', ''14.8.1 <15'', ''15.7.1'']"
    by (simp add: split_def)
  have i1: "includesStr '', '' ?hard"
    by simp
  have s2: "split '', '' ''13.6.1, 14.8.1 <15'' = [''13.6.1'', ''14.8.1 <15'']"
    by (simp add: split_def)
  have i2: "includesStr '', '' ''13.6.1, 14.8.1 <15''"
    by simp
  have clauses:
    "satisfiesClause decimalValue ''12.5.6'' ''12.5.6 <13''"
    "\<not> satisfiesClause decimalValue ''12.5.5'' ''12.5.6 <13''"
    "\<not> satisfiesClause decimalValue ''12.5.5'' ''13.6.1 <14''"
    "\<not> satisfiesClause decimalValue ''12.5.5'' ''14.8.1 <15''"
    "\<not> satisfiesClause decimalValue ''12.5.5'' ''15.7.1''"
    "\<not> satisfiesClause decimalValue ''13.0'' ''12.5.6 <13''"
    "\<not> satisfiesClause decimalValue ''13.0'' ''13.6.1 <14''"
    "\<not> satisfiesClause decimalValue ''13.0'' ''14.8.1 <15''"
    "\<not> satisfiesClause decimalValue ''13.0'' ''15.7.1''"
    "satisfiesClause decimalValue ''13.6.1'' ''13.6.1 <14''"
    "satisfiesClause decimalValue ''16.2'' ''15.7.1''"
    by code_simp+
  have "versionPasses decimalValue ''12.5.6'' ?hard"
    using versionPasses_disjunction [OF i1, of decimalValue "''12.5.6''"] clauses
    by (simp add: s1)
  moreover have "\<not> versionPasses decimalValue ''12.5.5'' ?hard"
    using versionPasses_disjunction [OF i1, of decimalValue "''12.5.5''"] clauses
    by (simp add: s1)
  moreover have "\<not> versionPasses decimalValue ''13.0'' ?hard"
    using versionPasses_disjunction [OF i1, of decimalValue "''13.0''"] clauses
    by (simp add: s1)
  moreover have "versionPasses decimalValue ''13.6.1'' ?hard"
    using versionPasses_disjunction [OF i1, of decimalValue "''13.6.1''"] clauses
    by (simp add: s1)
  moreover have "versionPasses decimalValue ''16.2'' ?hard"
    using versionPasses_disjunction [OF i1, of decimalValue "''16.2''"] clauses
    by (simp add: s1)
  moreover have "\<not> versionPasses decimalValue ''13.7'' ''13.6.1, 14.8.1 <15''"
    using versionPasses_disjunction [OF i2, of decimalValue "''13.7''"]
    by (simp add: s2)
  ultimately show ?thesis using s1 by blast
qed

text \<open>
  The claim as stated fails where a clause other than the last contains \<^verbatim>\<open>' <'\<close>
  twice: \<^verbatim>\<open>1 <2 <3\<close> is no two-sided range (it splits into three pieces and no
  version satisfies it), yet the minimum \<^verbatim>\<open>1 <2 <3, 5\<close> is not rejected: version 6
  passes it through the last clause.
\<close>

theorem versionPasses_malformed_clause:
  "split '', '' ''1 <2 <3, 5'' = [''1 <2 <3'', ''5'']
   \<and> split '' <'' ''1 <2 <3'' = [''1'', ''2'', ''3'']
   \<and> \<not> versionPasses decimalValue ''6'' ''1 <2 <3''
   \<and> versionPasses decimalValue ''6'' ''1 <2 <3, 5''"
proof -
  have "split '', '' ''1 <2 <3, 5'' = [''1 <2 <3'', ''5'']" "split '' <'' ''1 <2 <3'' = [''1'', ''2'', ''3'']"
    by (simp_all add: split_def)
  moreover have "\<not> versionPasses decimalValue ''6'' ''1 <2 <3''"
    "versionPasses decimalValue ''6'' ''1 <2 <3, 5''"
    by code_simp+
  ultimately show ?thesis by simp
qed

end
